theory Spec2Isabelle
  imports Main
begin

section \<open>Values, replies and errors\<close>

text \<open>
  Byte buffers (\<^verbatim>\<open>Uint8Array\<close>) are lists of \<^typ>\<open>char\<close>, a \<^typ>\<open>char\<close> being one byte.
  A JavaScript string is represented by its UTF-8 encoding, so \<^verbatim>\<open>encoder.encode\<close> and
  \<^verbatim>\<open>decoder.decode\<close> are the identity on well-formed text; \<^verbatim>\<open>s.length\<close>, which counts
  UTF-16 code units, is \<open>js_length\<close> below. Malformed UTF-8 and byte-order marks in decoded
  text are outside the model.
\<close>

type_synonym bytes = "char list"

datatype error =
    BadResource
  | BrokenPipe
  | ConnectionAborted
  | ConnectionRefused
  | ConnectionReset
  | EOFError
  | ErrorReplyError string
  | InvalidStateError
  | ConnectionClosedError
  | AuthenticationError string
  | RangeError
  | TypeError
  | GenericError string

text \<open>\<^verbatim>\<open>RedisValue\<close>: the arguments of a command, with the absent ones.\<close>

datatype redis_value =
    VString string
  | VNumber int
  | VBytes bytes
  | VNull
  | VUndefined

text \<open>\<^verbatim>\<open>types.Raw\<close>: what \<^verbatim>\<open>value()\<close> returns. A number is \<open>None\<close> when it is \<^verbatim>\<open>NaN\<close>.\<close>

datatype raw =
    RawString string
  | RawInteger "int option"
  | RawNull
  | RawArray "raw list"

text \<open>The four reply classes, each with the body its constructor stores.\<close>

datatype reply =
    SimpleStringReply bytes
  | BulkReply "bytes option"
  | IntegerReply bytes
  | ArrayReply "raw list option"

text \<open>\<^verbatim>\<open>RawOrError\<close>: an element of the result of a batch.\<close>

datatype raw_or_error =
    ReplyValue raw
  | ReplyError error

record queued_command =
  command :: string
  args :: "redis_value list"

subsection \<open>\<^verbatim>\<open>parseInt\<close>\<close>

text \<open>
  The builtin \<^verbatim>\<open>parseInt(s)\<close> without a radix: leading white space is skipped, a sign is
  read, a \<^verbatim>\<open>0x\<close> prefix selects base 16, and the longest prefix of digits is the value;
  with no digit the result is \<^verbatim>\<open>NaN\<close> (\<open>None\<close>). Only the ASCII white space is skipped
  here and the value is not rounded to a double.
\<close>

definition is_ws :: "char \<Rightarrow> bool" where
  "is_ws c = (c \<in> {CHR 0x09, CHR 0x0A, CHR 0x0B, CHR 0x0C, CHR 0x0D, CHR '' ''})"

definition digit_val :: "char \<Rightarrow> nat" where
  "digit_val c =
     (let k = of_char c :: nat in
      if 48 \<le> k \<and> k \<le> 57 then k - 48
      else if 97 \<le> k \<and> k \<le> 122 then k - 87
      else if 65 \<le> k \<and> k \<le> 90 then k - 55
      else 36)"

definition is_digit :: "nat \<Rightarrow> char \<Rightarrow> bool" where
  "is_digit radix c = (digit_val c < radix)"

definition digits_value :: "nat \<Rightarrow> string \<Rightarrow> nat" where
  "digits_value radix ds = foldl (\<lambda>a c. a * radix + digit_val c) 0 ds"

definition parseInt :: "string \<Rightarrow> int option" where
  "parseInt s =
     (let s1 = dropWhile is_ws s;
          neg = (case s1 of c # _ \<Rightarrow> c = CHR ''-'' | [] \<Rightarrow> False);
          s2 = (case s1 of c # r \<Rightarrow> if c = CHR ''-'' \<or> c = CHR ''+'' then r else s1 | [] \<Rightarrow> s1);
          hex = (case s2 of a # b # _ \<Rightarrow> a = CHR ''0'' \<and> (b = CHR ''x'' \<or> b = CHR ''X'') | _ \<Rightarrow> False);
          radix = (if hex then 16 else 10);
          s3 = (if hex then drop 2 s2 else s2);
          ds = takeWhile (is_digit radix) s3
      in if ds = [] then None
         else Some ((if neg then - 1 else 1) * int (digits_value radix ds)))"

subsection \<open>Reply accessors\<close>

text \<open>
  \<^verbatim>\<open>value()\<close> of each class: \<^verbatim>\<open>string()\<close> for a simple string, \<^verbatim>\<open>bulk()\<close> for a bulk
  (an empty \<^verbatim>\<open>Uint8Array\<close> is truthy, so only a missing body gives \<^verbatim>\<open>null\<close>),
  \<^verbatim>\<open>integer()\<close> for an integer and \<^verbatim>\<open>array()\<close> for an array. A \<open>RawString\<close> holds the
  bytes of the body and stands for the text \<^verbatim>\<open>decoder.decode(body)\<close>: it is that text for
  a body of well-formed UTF-8 without a leading byte-order mark, and says nothing of the
  replacement characters that the decoder puts for other bodies.
\<close>

fun reply_value :: "reply \<Rightarrow> raw" where
  "reply_value (SimpleStringReply body) = RawString body"
| "reply_value (BulkReply None) = RawNull"
| "reply_value (BulkReply (Some body)) = RawString body"
| "reply_value (IntegerReply body) = RawInteger (parseInt body)"
| "reply_value (ArrayReply None) = RawNull"
| "reply_value (ArrayReply (Some xs)) = RawArray xs"

text \<open>\<^verbatim>\<open>array()\<close>: only \<^verbatim>\<open>ArrayReply\<close> overrides it; \<^verbatim>\<open>BaseReply.array\<close> throws.\<close>

fun reply_array :: "reply \<Rightarrow> error + raw list option" where
  "reply_array (ArrayReply body) = Inr body"
| "reply_array _ = Inl InvalidStateError"

definition okReply :: reply where
  "okReply = SimpleStringReply ''OK''"

section \<open>Batched send\<close>

text \<open>
  The connection is the environment of an executor. A transport \<open>send w command args\<close>
  stands for \<^verbatim>\<open>sendCommand(writer, reader, command, ...args)\<close> on a connection in state
  \<open>w\<close>: it returns the reply or the exception, and the connection afterwards.
\<close>

type_synonym 'w transport = "'w \<Rightarrow> string \<Rightarrow> redis_value list \<Rightarrow> (error + reply) \<times> 'w"

text \<open>The loop of \<^verbatim>\<open>sendCommands\<close>, with \<^verbatim>\<open>results\<close> as accumulator.\<close>

fun sendCommands_loop ::
  "'w transport \<Rightarrow> 'w \<Rightarrow> queued_command list \<Rightarrow> raw_or_error list
     \<Rightarrow> (error + raw_or_error list) \<times> 'w" where
  "sendCommands_loop send w [] results = (Inr results, w)"
| "sendCommands_loop send w (c # cs) results =
     (case send w (command c) (args c) of
        (Inr reply, w') \<Rightarrow>
          sendCommands_loop send w' cs (results @ [ReplyValue (reply_value reply)])
      | (Inl e, w') \<Rightarrow>
          (case e of
             ErrorReplyError m \<Rightarrow> sendCommands_loop send w' cs (results @ [ReplyError e])
           | _ \<Rightarrow> (Inl e, w')))"

definition sendCommands ::
  "'w transport \<Rightarrow> 'w \<Rightarrow> queued_command list \<Rightarrow> (error + raw_or_error list) \<times> 'w" where
  "sendCommands send w commands =
     (if length commands = 0 then (Inr [], w)
      else sendCommands_loop send w commands [])"

section \<open>Connection session\<close>

text \<open>
  The fields of \<^verbatim>\<open>RedisConnection\<close> that its methods read and write. The options that
  may be \<^verbatim>\<open>undefined\<close> are options; \<^verbatim>\<open>name\<close> is \<^verbatim>\<open>null\<close> when \<open>None\<close>. The stream
  halves and the closer belong to the environment.
\<close>

record connection =
  opt_password :: "string option"
  opt_username :: "string option"
  opt_db :: "int option"
  name :: "string option"
  maxRetryCount :: int
  retryCount :: int
  isClosed :: bool
  isConnected :: bool

text \<open>
  The environment of a connection in state \<open>'w\<close>: \<open>dial\<close> is \<^verbatim>\<open>Deno.connect\<close> or
  \<^verbatim>\<open>Deno.connectTls\<close> (with \<^verbatim>\<open>parsePortLike\<close>), \<open>send\<close> is \<^verbatim>\<open>sendCommand\<close> on the current
  streams, \<open>closer\<close> is \<^verbatim>\<open>this.closer?.close()\<close>, and \<open>pause n\<close> is
  \<^verbatim>\<open>await delay(this.backoff(n))\<close>.
\<close>

record 'w network =
  dial :: "'w \<Rightarrow> error option \<times> 'w"
  send :: "'w transport"
  closer :: "'w \<Rightarrow> error option \<times> 'w"
  pause :: "int \<Rightarrow> 'w \<Rightarrow> 'w"

definition truthy :: "string option \<Rightarrow> bool" where
  "truthy s = (case s of None \<Rightarrow> False | Some t \<Rightarrow> t \<noteq> [])"

definition close :: "'w network \<Rightarrow> connection \<times> 'w \<Rightarrow> error option \<times> connection \<times> 'w" where
  "close N cw =
     (let c = (fst cw)\<lparr>isClosed := True, isConnected := False\<rparr> in
      case closer N (snd cw) of
        (None, w) \<Rightarrow> (None, c, w)
      | (Some e, w) \<Rightarrow> if e = BadResource then (None, c, w) else (Some e, c, w))"

text \<open>\<^verbatim>\<open>RedisConnection.sendCommand\<close>: the reply's \<^verbatim>\<open>value()\<close>.\<close>

definition conn_sendCommand ::
  "'w network \<Rightarrow> 'w \<Rightarrow> string \<Rightarrow> redis_value list \<Rightarrow> (error + raw) \<times> 'w" where
  "conn_sendCommand N w cmd as =
     (case send N w cmd as of
        (Inr r, w') \<Rightarrow> (Inr (reply_value r), w')
      | (Inl e, w') \<Rightarrow> (Inl e, w'))"

definition authenticate ::
  "'w network \<Rightarrow> string option \<Rightarrow> string \<Rightarrow> 'w \<Rightarrow> error option \<times> 'w" where
  "authenticate N username password w =
     (case (if password \<noteq> [] \<and> truthy username
            then conn_sendCommand N w ''AUTH'' [VString (the username), VString password]
            else conn_sendCommand N w ''AUTH'' [VString password]) of
        (Inr v, w') \<Rightarrow> (None, w')
      | (Inl e, w') \<Rightarrow>
          (case e of
             ErrorReplyError m \<Rightarrow> (Some (AuthenticationError ''Authentication failed''), w')
           | _ \<Rightarrow> (Some e, w')))"

definition selectDb :: "'w network \<Rightarrow> int option \<Rightarrow> 'w \<Rightarrow> error option \<times> 'w" where
  "selectDb N db w =
     (case db of
        None \<Rightarrow> (Some (GenericError ''The database index is undefined.''), w)
      | Some d \<Rightarrow>
          if d = 0 then (Some (GenericError ''The database index is undefined.''), w)
          else (case conn_sendCommand N w ''SELECT'' [VNumber d] of
                  (Inr v, w') \<Rightarrow> (None, w')
                | (Inl e, w') \<Rightarrow> (Some e, w')))"

text \<open>The inner \<^verbatim>\<open>try\<close> block of \<^verbatim>\<open>connect\<close>: AUTH, SELECT, CLIENT SETNAME.\<close>

definition handshake :: "'w network \<Rightarrow> connection \<Rightarrow> 'w \<Rightarrow> error option \<times> 'w" where
  "handshake N c w =
     (case (case opt_password c of
              None \<Rightarrow> (None, w)
            | Some pw \<Rightarrow> authenticate N (opt_username c) pw w) of
        (Some e, w1) \<Rightarrow> (Some e, w1)
      | (None, w1) \<Rightarrow>
          (case (if opt_db c \<noteq> None \<and> opt_db c \<noteq> Some 0
                 then selectDb N (opt_db c) w1 else (None, w1)) of
             (Some e, w2) \<Rightarrow> (Some e, w2)
           | (None, w2) \<Rightarrow>
               if truthy (name c)
               then (case conn_sendCommand N w2 ''CLIENT'' [VString ''SETNAME'', VString (the (name c))] of
                       (Inr v, w3) \<Rightarrow> (None, w3)
                     | (Inl e, w3) \<Rightarrow> (Some e, w3))
               else (None, w2)))"

text \<open>
  The outer \<^verbatim>\<open>try\<close> block of \<^verbatim>\<open>connect\<close>, one attempt: the dial, the flags, the
  handshake and, when the handshake throws, \<^verbatim>\<open>this.close()\<close> before the rethrow.
\<close>

definition connect_attempt ::
  "'w network \<Rightarrow> connection \<times> 'w \<Rightarrow> error option \<times> connection \<times> 'w" where
  "connect_attempt N cw =
     (case dial N (snd cw) of
        (Some e, w1) \<Rightarrow> (Some e, fst cw, w1)
      | (None, w1) \<Rightarrow>
          (let c1 = (fst cw)\<lparr>isClosed := False, isConnected := True\<rparr> in
           case handshake N c1 w1 of
             (None, w2) \<Rightarrow> (None, c1\<lparr>retryCount := 0\<rparr>, w2)
           | (Some e, w2) \<Rightarrow>
               (case close N (c1, w2) of
                  (None, c3, w3) \<Rightarrow> (Some e, c3, w3)
                | (Some ce, c3, w3) \<Rightarrow> (Some ce, c3, w3))))"

fun is_AuthenticationError :: "error \<Rightarrow> bool" where
  "is_AuthenticationError (AuthenticationError m) = True"
| "is_AuthenticationError _ = False"

text \<open>
  \<^verbatim>\<open>connect\<close>, with the \<^verbatim>\<open>catch\<close> of the outer block: an authentication error is
  rethrown at once; otherwise \<^verbatim>\<open>this.retryCount++ >= this.maxRetryCount\<close> decides between
  giving up and a recursive call after the backoff delay.
\<close>

function connect :: "'w network \<Rightarrow> connection \<times> 'w \<Rightarrow> error option \<times> connection \<times> 'w" where
  "connect N cw =
     (case connect_attempt N cw of
        (None, c, w) \<Rightarrow> (None, c, w)
      | (Some e, c, w) \<Rightarrow>
          if is_AuthenticationError e then (Some e, c\<lparr>retryCount := 0\<rparr>, w)
          else if retryCount c \<ge> maxRetryCount c then (Some e, c\<lparr>retryCount := 0\<rparr>, w)
          else connect N (c\<lparr>retryCount := retryCount c + 1\<rparr>, pause N (retryCount c + 1) w))"
  by pat_completeness auto

lemma connect_attempt_counts:
  assumes "connect_attempt N cw = (Some e, c, w)"
  shows "retryCount c = retryCount (fst cw) \<and> maxRetryCount c = maxRetryCount (fst cw)"
  using assms
  by (auto simp: connect_attempt_def close_def Let_def split: prod.splits option.splits if_splits)

termination connect
  apply (relation "measure (\<lambda>(N, cw). nat (maxRetryCount (fst cw) - retryCount (fst cw)))")
   apply simp
  apply (auto dest!: connect_attempt_counts [OF sym])
  done

definition reconnect :: "'w network \<Rightarrow> connection \<times> 'w \<Rightarrow> error option \<times> connection \<times> 'w" where
  "reconnect N cw =
     (if isClosed (fst cw) then (Some (GenericError ''Client is closed.''), fst cw, snd cw)
      else (case conn_sendCommand N (snd cw) ''PING'' [] of
              (Inr v, w1) \<Rightarrow> (None, (fst cw)\<lparr>isConnected := True\<rparr>, w1)
            | (Inl e, w1) \<Rightarrow>
                (case close N (fst cw, w1) of
                   (Some ce, c2, w2) \<Rightarrow> (Some ce, c2, w2)
                 | (None, c2, w2) \<Rightarrow>
                     (case connect N (c2, w2) of
                        (Some e', c3, w3) \<Rightarrow> (Some e', c3, w3)
                      | (None, c3, w3) \<Rightarrow>
                          (case conn_sendCommand N w3 ''PING'' [] of
                             (Inr v, w4) \<Rightarrow> (None, c3, w4)
                           | (Inl e'', w4) \<Rightarrow> (Some e'', c3, w4))))))"

section \<open>Executors\<close>

text \<open>\<^verbatim>\<open>CommandExecutor\<close>: every executor holds its connection.\<close>

record executor =
  connection :: connection

subsection \<open>Pipeline executor\<close>

record pipeline = executor +
  commands :: "queued_command list"
  tx :: bool

definition pipeline_exec :: "pipeline \<Rightarrow> string \<Rightarrow> redis_value list \<Rightarrow> (error + reply) \<times> pipeline" where
  "pipeline_exec p cmd as =
     (Inr okReply, p\<lparr>commands := commands p @ [\<lparr>command = cmd, args = as\<rparr>]\<rparr>)"

definition frame_commands :: "bool \<Rightarrow> queued_command list \<Rightarrow> queued_command list" where
  "frame_commands t cs =
     (if t then [\<lparr>command = ''MULTI'', args = []\<rparr>] @ cs @ [\<lparr>command = ''EXEC'', args = []\<rparr>]
      else cs)"

definition flush ::
  "'w transport \<Rightarrow> pipeline \<times> 'w \<Rightarrow> (error + raw_or_error list) \<times> pipeline \<times> 'w" where
  "flush snd_cmd pw =
     (let p = fst pw; w = snd pw;
          snapshot = commands p;
          p' = p\<lparr>commands := []\<rparr>;
          commandsToFlush = frame_commands (tx p) snapshot
      in if length commandsToFlush = 0 then (Inr [], p', w)
         else (case sendCommands snd_cmd w commandsToFlush of
                 (r, w') \<Rightarrow> (r, p', w')))"

subsection \<open>Multiplexing executor\<close>

text \<open>
  A queued command of the multiplexer; \<open>item_id\<close> stands for the promise with its
  \<^verbatim>\<open>resolve\<close> and \<^verbatim>\<open>reject\<close>, that is, for the caller.
\<close>

record mux_item =
  item_id :: nat
  item_command :: string
  item_args :: "redis_value list"

text \<open>
  \<^verbatim>\<open>dequeue\<close> is an async function: it runs up to an \<^verbatim>\<open>await\<close> and is resumed when
  the awaited operation settles. A suspended run is the awaited operation with the
  \<^verbatim>\<open>item\<close> it captured.
\<close>

datatype pending_io =
    AwaitSend mux_item
  | AwaitReconnect mux_item

text \<open>
  The executor with the event loop around it: \<open>in_flight\<close> holds the suspended runs of
  \<^verbatim>\<open>dequeue\<close>. The last four fields are history: \<open>accepted\<close> the callers whose command
  was pushed, \<open>refused\<close> the callers rejected at submission with the error, \<open>settled\<close> the calls of
  \<^verbatim>\<open>resolve\<close> and \<^verbatim>\<open>reject\<close> made by \<^verbatim>\<open>dequeue\<close>, \<open>wire\<close> the calls of \<^verbatim>\<open>sendCommand\<close>.
\<close>

record mux = executor +
  queue :: "mux_item list"
  isProcessing :: bool
  in_flight :: "pending_io list"
  accepted :: "nat list"
  refused :: "(nat \<times> error) list"
  settled :: "(nat \<times> (error + reply)) list"
  wire :: "mux_item list"

definition mux_init :: "connection \<Rightarrow> mux" where
  "mux_init c =
     \<lparr>connection = c, queue = [], isProcessing = False, in_flight = [],
      accepted = [], refused = [], settled = [], wire = []\<rparr>"

definition isRetriableError :: "error \<Rightarrow> connection \<Rightarrow> bool" where
  "isRetriableError e c =
     (if isClosed c then False
      else e = BadResource \<or> e = BrokenPipe \<or> e = ConnectionAborted \<or>
           e = ConnectionRefused \<or> e = ConnectionReset \<or> e = EOFError)"

text \<open>\<^verbatim>\<open>dequeue\<close> from its entry to the \<^verbatim>\<open>await\<close> of \<^verbatim>\<open>sendCommand\<close>.\<close>

definition dequeue :: "mux \<Rightarrow> mux" where
  "dequeue m =
     (if isProcessing m then m
      else (case queue m of
              [] \<Rightarrow> m\<lparr>isProcessing := False\<rparr>
            | item # rest \<Rightarrow>
                m\<lparr>isProcessing := True,
                  in_flight := in_flight m @ [AwaitSend item],
                  wire := wire m @ [item]\<rparr>))"

text \<open>The \<^verbatim>\<open>finally\<close> block of \<^verbatim>\<open>dequeue\<close>.\<close>

definition dequeue_finally :: "mux \<Rightarrow> mux" where
  "dequeue_finally m =
     (let m1 = m\<lparr>isProcessing := False\<rparr> in
      if length (queue m1) > 0 then dequeue m1 else m1)"

text \<open>\<^verbatim>\<open>item.resolve\<close> or \<^verbatim>\<open>item.reject\<close>, then \<^verbatim>\<open>this.queue.shift()\<close>.\<close>

definition settle_and_shift :: "mux_item \<Rightarrow> error + reply \<Rightarrow> mux \<Rightarrow> mux" where
  "settle_and_shift item outcome m =
     m\<lparr>settled := settled m @ [(item_id item, outcome)], queue := tl (queue m)\<rparr>"

text \<open>
  What happens on the event loop: a caller calls \<^verbatim>\<open>exec\<close>; the awaited
  \<^verbatim>\<open>sendCommand\<close> or \<^verbatim>\<open>reconnect\<close> settles; the connection's closed flag is set
  (\<^verbatim>\<open>close()\<close>) or cleared (a successful dial inside \<^verbatim>\<open>reconnect\<close>).
\<close>

datatype mux_event =
    Exec nat string "redis_value list"
  | SendDone "error + reply"
  | ReconnectDone "error option"
  | Closed
  | Reopened

fun mux_step :: "mux \<Rightarrow> mux_event \<Rightarrow> mux" where
  "mux_step m (Exec i cmd as) =
     (if isClosed (connection m) then m\<lparr>refused := refused m @ [(i, ConnectionClosedError)]\<rparr>
      else (let m1 = m\<lparr>queue := queue m @ [\<lparr>item_id = i, item_command = cmd, item_args = as\<rparr>],
                        accepted := accepted m @ [i]\<rparr>
            in if \<not> isProcessing m1 then dequeue m1 else m1))"
| "mux_step m (SendDone outcome) =
     (case in_flight m of
        AwaitSend item # others \<Rightarrow>
          (let m1 = m\<lparr>in_flight := others\<rparr> in
           case outcome of
             Inr reply \<Rightarrow> dequeue_finally (settle_and_shift item (Inr reply) m1)
           | Inl e \<Rightarrow>
               if maxRetryCount (connection m1) > 0 \<and> isRetriableError e (connection m1)
               then m1\<lparr>in_flight := others @ [AwaitReconnect item]\<rparr>
               else dequeue_finally (settle_and_shift item (Inl e) m1))
      | _ \<Rightarrow> m)"
| "mux_step m (ReconnectDone r) =
     (case in_flight m of
        AwaitReconnect item # others \<Rightarrow>
          (let m1 = m\<lparr>in_flight := others\<rparr> in
           case r of
             None \<Rightarrow> dequeue_finally m1
           | Some reconnectError \<Rightarrow>
               dequeue_finally (settle_and_shift item (Inl reconnectError) m1))
      | _ \<Rightarrow> m)"
| "mux_step m Closed =
     m\<lparr>connection := (connection m)\<lparr>isClosed := True, isConnected := False\<rparr>\<rparr>"
| "mux_step m Reopened =
     m\<lparr>connection := (connection m)\<lparr>isClosed := False, isConnected := True\<rparr>\<rparr>"

definition mux_run :: "mux \<Rightarrow> mux_event list \<Rightarrow> mux" where
  "mux_run m es = foldl mux_step m es"

subsection \<open>Subscription session\<close>

text \<open>
  \<^verbatim>\<open>RedisSubscriptionImpl\<close>. The key sets \<^verbatim>\<open>channels\<close> and \<^verbatim>\<open>patterns\<close> are lists of
  distinct keys in insertion order. Its environment: the connection's network, the
  \<^verbatim>\<open>exec\<close> of its executor, and \<open>sub_read\<close> for \<^verbatim>\<open>readReply\<close> on the connection's
  reader. In \<^verbatim>\<open>Object.keys\<close> a key that is written like an array index comes before the
  others, in numeric order; here every key keeps its place of insertion.
\<close>

record subscription = executor +
  channels :: "string list"
  patterns :: "string list"

record 'w sub_env =
  sub_net :: "'w network"
  sub_exec :: "connection \<times> 'w \<Rightarrow> string \<Rightarrow> redis_value list \<Rightarrow> (error + reply) \<times> connection \<times> 'w"
  sub_read :: "'w \<Rightarrow> (error + reply) \<times> 'w"

definition add_key :: "string list \<Rightarrow> string \<Rightarrow> string list" where
  "add_key ks k = (if k \<in> set ks then ks else ks @ [k])"

definition subscribe ::
  "'w sub_env \<Rightarrow> string list \<Rightarrow> subscription \<times> 'w \<Rightarrow> error option \<times> subscription \<times> 'w" where
  "subscribe E chans sw =
     (case sub_exec E (connection (fst sw), snd sw) ''SUBSCRIBE'' (map VString chans) of
        (Inl e, c, w) \<Rightarrow> (Some e, (fst sw)\<lparr>connection := c\<rparr>, w)
      | (Inr r, c, w) \<Rightarrow>
          (None, (fst sw)\<lparr>connection := c, channels := foldl add_key (channels (fst sw)) chans\<rparr>, w))"

definition psubscribe ::
  "'w sub_env \<Rightarrow> string list \<Rightarrow> subscription \<times> 'w \<Rightarrow> error option \<times> subscription \<times> 'w" where
  "psubscribe E pats sw =
     (case sub_exec E (connection (fst sw), snd sw) ''PSUBSCRIBE'' (map VString pats) of
        (Inl e, c, w) \<Rightarrow> (Some e, (fst sw)\<lparr>connection := c\<rparr>, w)
      | (Inr r, c, w) \<Rightarrow>
          (None, (fst sw)\<lparr>connection := c, patterns := foldl add_key (patterns (fst sw)) pats\<rparr>, w))"

text \<open>A yielded \<^verbatim>\<open>RedisPubSubMessage\<close>; the fields are elements of the reply array.\<close>

record pubsub_message =
  msg_pattern :: "raw option"
  msg_channel :: raw
  msg_payload :: raw

text \<open>How one turn of the \<^verbatim>\<open>while\<close> loop of \<^verbatim>\<open>#_receive\<close> ends.\<close>

datatype turn =
    Yielded pubsub_message
  | Dropped
  | Stopped
  | Raised error

text \<open>
  The inner \<^verbatim>\<open>try\<close>: \<^verbatim>\<open>readReply\<close> and \<^verbatim>\<open>reply.array()\<close>, with its \<^verbatim>\<open>catch\<close> that closes
  the connection and breaks on \<^verbatim>\<open>BadResource\<close> and rethrows anything else. The lock that
  \<^verbatim>\<open>getReader()\<close> takes on the stream belongs to \<open>sub_read\<close>; that it is not released
  when \<^verbatim>\<open>readReply\<close> throws is not modelled.
\<close>

datatype inner_result =
    GotRep "raw list option"
  | Break
  | Thrown error

definition receive_inner ::
  "'w sub_env \<Rightarrow> subscription \<times> 'w \<Rightarrow> inner_result \<times> subscription \<times> 'w" where
  "receive_inner E sw =
     (case sub_read E (snd sw) of
        (Inr reply, w1) \<Rightarrow>
          (case reply_array reply of
             Inr rep \<Rightarrow> (GotRep rep, fst sw, w1)
           | Inl err \<Rightarrow>
               if err = BadResource
               then (case close (sub_net E) (connection (fst sw), w1) of
                       (None, c, w2) \<Rightarrow> (Break, (fst sw)\<lparr>connection := c\<rparr>, w2)
                     | (Some ce, c, w2) \<Rightarrow> (Thrown ce, (fst sw)\<lparr>connection := c\<rparr>, w2))
               else (Thrown err, fst sw, w1))
      | (Inl err, w1) \<Rightarrow>
          if err = BadResource
          then (case close (sub_net E) (connection (fst sw), w1) of
                  (None, c, w2) \<Rightarrow> (Break, (fst sw)\<lparr>connection := c\<rparr>, w2)
                | (Some ce, c, w2) \<Rightarrow> (Thrown ce, (fst sw)\<lparr>connection := c\<rparr>, w2))
          else (Thrown err, fst sw, w1))"

text \<open>
  The rest of the outer \<^verbatim>\<open>try\<close>: \<^verbatim>\<open>rep[0]\<close> (a \<^verbatim>\<open>TypeError\<close> on \<^verbatim>\<open>null\<close>) and the two
  \<^verbatim>\<open>yield\<close> branches. No element of a decoded array is a \<^verbatim>\<open>Uint8Array\<close>, so the message
  is \<^verbatim>\<open>messageData\<close> itself whether \<^verbatim>\<open>binary\<close> is set or not.
\<close>

definition dispatch_rep :: "bool \<Rightarrow> raw list option \<Rightarrow> turn" where
  "dispatch_rep binary rep =
     (case rep of
        None \<Rightarrow> Raised TypeError
      | Some xs \<Rightarrow>
          if xs \<noteq> [] \<and> xs ! 0 = RawString ''message'' \<and> length xs = 3
          then Yielded \<lparr>msg_pattern = None, msg_channel = xs ! 1, msg_payload = xs ! 2\<rparr>
          else if xs \<noteq> [] \<and> xs ! 0 = RawString ''pmessage'' \<and> length xs = 4
          then Yielded \<lparr>msg_pattern = Some (xs ! 1), msg_channel = xs ! 2, msg_payload = xs ! 3\<rparr>
          else Dropped)"

text \<open>
  The body of the \<^verbatim>\<open>finally\<close> branch: \<^verbatim>\<open>connection.reconnect()\<close>, then the replay of the
  recorded channels and patterns.
\<close>

definition recover ::
  "'w sub_env \<Rightarrow> subscription \<times> 'w \<Rightarrow> error option \<times> subscription \<times> 'w" where
  "recover E sw =
     (case reconnect (sub_net E) (connection (fst sw), snd sw) of
        (Some e, c, w1) \<Rightarrow> (Some e, (fst sw)\<lparr>connection := c\<rparr>, w1)
      | (None, c, w1) \<Rightarrow>
          (case (if length (channels (fst sw)) > 0
                 then subscribe E (channels (fst sw)) ((fst sw)\<lparr>connection := c\<rparr>, w1)
                 else (None, (fst sw)\<lparr>connection := c\<rparr>, w1)) of
             (Some e, s2, w2) \<Rightarrow> (Some e, s2, w2)
           | (None, s2, w2) \<Rightarrow>
               if length (patterns s2) > 0 then psubscribe E (patterns s2) (s2, w2)
               else (None, s2, w2)))"

text \<open>
  One turn of the loop: the outer \<^verbatim>\<open>catch\<close> turns \<^verbatim>\<open>InvalidStateError\<close> and
  \<^verbatim>\<open>BadResource\<close> into \<^verbatim>\<open>forceReconnect\<close> and rethrows the rest; the \<^verbatim>\<open>finally\<close> block
  recovers when the connection is neither closed nor connected or when forced. An
  exception of the \<^verbatim>\<open>finally\<close> block replaces the pending outcome.
\<close>

definition receive_turn ::
  "'w sub_env \<Rightarrow> bool \<Rightarrow> subscription \<times> 'w \<Rightarrow> turn \<times> subscription \<times> 'w" where
  "receive_turn E binary sw =
     (case receive_inner E sw of
        (res, s1, w1) \<Rightarrow>
          (let attempt = (case res of
                            GotRep rep \<Rightarrow> dispatch_rep binary rep
                          | Break \<Rightarrow> Stopped
                          | Thrown e \<Rightarrow> Raised e);
               forceReconnect = (attempt = Raised InvalidStateError \<or> attempt = Raised BadResource);
               pending = (if forceReconnect then Dropped else attempt)
           in if (\<not> isClosed (connection s1) \<and> \<not> isConnected (connection s1)) \<or> forceReconnect
              then (case recover E (s1, w1) of
                      (None, s2, w2) \<Rightarrow> (pending, s2, w2)
                    | (Some e, s2, w2) \<Rightarrow> (Raised e, s2, w2))
              else (pending, s1, w1)))"

section \<open>Wire codec\<close>

subsection \<open>Buffered reader\<close>

text \<open>
  \<^verbatim>\<open>StreamBuffer\<close>: the bytes held by its \<^verbatim>\<open>Buffer\<close> and the underlying stream reader, a
  list of the chunks that \<^verbatim>\<open>read()\<close> will deliver; on the empty list \<^verbatim>\<open>read()\<close> reports
  \<^verbatim>\<open>done\<close>.
\<close>

record stream_buffer =
  buffer :: bytes
  reader :: "bytes list"

definition CR :: char where "CR = CHR 0x0D"
definition LF :: char where "LF = CHR 0x0A"
definition CRLF :: bytes where "CRLF = [CR, LF]"

fun findCRLF :: "bytes \<Rightarrow> nat option" where
  "findCRLF (a # b # rest) =
     (if a = CR \<and> b = LF then Some 0 else map_option Suc (findCRLF (b # rest)))"
| "findCRLF _ = None"

fun readLine_loop :: "bytes \<Rightarrow> bytes list \<Rightarrow> bytes option \<times> stream_buffer" where
  "readLine_loop data [] =
     (case findCRLF data of
        Some crlfIndex \<Rightarrow>
          (Some (take crlfIndex data), \<lparr>buffer = drop (crlfIndex + 2) data, reader = []\<rparr>)
      | None \<Rightarrow>
          if length data > 0 then (Some data, \<lparr>buffer = [], reader = []\<rparr>)
          else (None, \<lparr>buffer = data, reader = []\<rparr>))"
| "readLine_loop data (v # chunks) =
     (case findCRLF data of
        Some crlfIndex \<Rightarrow>
          (Some (take crlfIndex data), \<lparr>buffer = drop (crlfIndex + 2) data, reader = v # chunks\<rparr>)
      | None \<Rightarrow> readLine_loop (data @ v) chunks)"

definition readLine :: "stream_buffer \<Rightarrow> bytes option \<times> stream_buffer" where
  "readLine sb = readLine_loop (buffer sb) (reader sb)"

fun ensureBufferSize_loop :: "nat \<Rightarrow> bytes \<Rightarrow> bytes list \<Rightarrow> stream_buffer" where
  "ensureBufferSize_loop minSize data [] = \<lparr>buffer = data, reader = []\<rparr>"
| "ensureBufferSize_loop minSize data (v # chunks) =
     (if length data < minSize then ensureBufferSize_loop minSize (data @ v) chunks
      else \<lparr>buffer = data, reader = v # chunks\<rparr>)"

definition ensureBufferSize :: "nat \<Rightarrow> stream_buffer \<Rightarrow> stream_buffer" where
  "ensureBufferSize minSize sb = ensureBufferSize_loop minSize (buffer sb) (reader sb)"

definition readBytes :: "nat \<Rightarrow> stream_buffer \<Rightarrow> (error + bytes) \<times> stream_buffer" where
  "readBytes n sb =
     (let sb1 = ensureBufferSize n sb; data = buffer sb1 in
      if length data < n then (Inl InvalidStateError, sb1)
      else (Inr (take n data), sb1\<lparr>buffer := drop n data\<rparr>))"

definition peek :: "nat \<Rightarrow> stream_buffer \<Rightarrow> bytes option \<times> stream_buffer" where
  "peek n sb =
     (let sb1 = ensureBufferSize n sb; data = buffer sb1 in
      if length data = 0 then (None, sb1)
      else (Some (take (min n (length data)) data), sb1))"

subsection \<open>Reply decoding\<close>

definition tryParseErrorReply :: "bytes \<Rightarrow> error" where
  "tryParseErrorReply line =
     (case line of
        code # _ \<Rightarrow> if code = CHR ''-'' then ErrorReplyError line else GenericError ''invalid line''
      | [] \<Rightarrow> GenericError ''invalid line'')"

definition parseSize :: "bytes \<Rightarrow> int option" where
  "parseSize line = parseInt (drop 1 line)"

definition readIntegerReplyBody :: "stream_buffer \<Rightarrow> (error + bytes) \<times> stream_buffer" where
  "readIntegerReplyBody sb =
     (case readLine sb of
        (None, sb1) \<Rightarrow> (Inl InvalidStateError, sb1)
      | (Some line, sb1) \<Rightarrow> (Inr (drop 1 line), sb1))"

definition readSimpleStringReplyBody :: "stream_buffer \<Rightarrow> (error + bytes) \<times> stream_buffer" where
  "readSimpleStringReplyBody sb =
     (case readLine sb of
        (None, sb1) \<Rightarrow> (Inl InvalidStateError, sb1)
      | (Some line, sb1) \<Rightarrow>
          if take 1 line \<noteq> ''+'' then (Inl (tryParseErrorReply line), sb1)
          else (Inr (drop 1 line), sb1))"

text \<open>
  A size that is \<^verbatim>\<open>NaN\<close> fails both comparisons and reads as length 0 in \<^verbatim>\<open>subarray\<close>, so
  \<^verbatim>\<open>readBytes(NaN)\<close> is \<open>readBytes 0\<close>.
\<close>

definition readBulkReplyBody :: "stream_buffer \<Rightarrow> (error + bytes option) \<times> stream_buffer" where
  "readBulkReplyBody sb =
     (case readLine sb of
        (None, sb1) \<Rightarrow> (Inl InvalidStateError, sb1)
      | (Some line, sb1) \<Rightarrow>
          if take 1 line \<noteq> ''$'' then (Inl (tryParseErrorReply line), sb1)
          else (let size = parseSize line in
                if (case size of Some n \<Rightarrow> n < 0 | None \<Rightarrow> False) then (Inr None, sb1)
                else (case readBytes (case size of Some n \<Rightarrow> nat n | None \<Rightarrow> 0) sb1 of
                        (Inl e, sb2) \<Rightarrow> (Inl e, sb2)
                      | (Inr bulkData, sb2) \<Rightarrow>
                          (case readBytes 2 sb2 of
                             (Inl e, sb3) \<Rightarrow> (Inl e, sb3)
                           | (Inr crlf, sb3) \<Rightarrow>
                               if crlf ! 0 \<noteq> CR \<or> crlf ! 1 \<noteq> LF then (Inl InvalidStateError, sb3)
                               else (Inr (Some bulkData), sb3)))))"

text \<open>
  \<^verbatim>\<open>readArrayReplyBody\<close> calls itself through \<^verbatim>\<open>ArrayReply.decode\<close> for a nested array.
  The first argument bounds the nesting depth; the result is \<open>None\<close> when the bound is
  reached. \<^verbatim>\<open>new Array(argCount)\<close> throws a \<^verbatim>\<open>RangeError\<close> unless \<^verbatim>\<open>argCount\<close> is an
  integer from 0 to \<open>2^32 - 1\<close>.
\<close>

fun readArrayReplyBody ::
      "nat \<Rightarrow> stream_buffer \<Rightarrow> (error + raw list option) option \<times> stream_buffer"
  and readArrayItems ::
      "nat \<Rightarrow> nat \<Rightarrow> raw list \<Rightarrow> stream_buffer \<Rightarrow> (error + raw list) option \<times> stream_buffer"
where
  "readArrayReplyBody 0 sb = (None, sb)"
| "readArrayReplyBody (Suc depth) sb =
     (case readLine sb of
        (None, sb1) \<Rightarrow> (Some (Inl InvalidStateError), sb1)
      | (Some line, sb1) \<Rightarrow>
          (case parseSize line of
             None \<Rightarrow> (Some (Inl RangeError), sb1)
           | Some argCount \<Rightarrow>
               if argCount = - 1 then (Some (Inr None), sb1)
               else if argCount < 0 \<or> argCount > 4294967295 then (Some (Inl RangeError), sb1)
               else (case readArrayItems depth (nat argCount) [] sb1 of
                       (None, sb2) \<Rightarrow> (None, sb2)
                     | (Some (Inl e), sb2) \<Rightarrow> (Some (Inl e), sb2)
                     | (Some (Inr array), sb2) \<Rightarrow> (Some (Inr (Some array)), sb2))))"
| "readArrayItems depth 0 array sb = (Some (Inr array), sb)"
| "readArrayItems depth (Suc k) array sb =
     (case peek 1 sb of
        (None, sb1) \<Rightarrow> (Some (Inl EOFError), sb1)
      | (Some pk, sb1) \<Rightarrow>
          if take 1 pk = ''+'' then
            (case readSimpleStringReplyBody sb1 of
               (Inl e, sb2) \<Rightarrow> (Some (Inl e), sb2)
             | (Inr body, sb2) \<Rightarrow>
                 readArrayItems depth k (array @ [reply_value (SimpleStringReply body)]) sb2)
          else if take 1 pk = ''$'' then
            (case readBulkReplyBody sb1 of
               (Inl e, sb2) \<Rightarrow> (Some (Inl e), sb2)
             | (Inr body, sb2) \<Rightarrow>
                 readArrayItems depth k (array @ [reply_value (BulkReply body)]) sb2)
          else if take 1 pk = '':'' then
            (case readIntegerReplyBody sb1 of
               (Inl e, sb2) \<Rightarrow> (Some (Inl e), sb2)
             | (Inr body, sb2) \<Rightarrow>
                 readArrayItems depth k (array @ [reply_value (IntegerReply body)]) sb2)
          else if take 1 pk = ''*'' then
            (case readArrayReplyBody depth sb1 of
               (None, sb2) \<Rightarrow> (None, sb2)
             | (Some (Inl e), sb2) \<Rightarrow> (Some (Inl e), sb2)
             | (Some (Inr body), sb2) \<Rightarrow>
                 readArrayItems depth k (array @ [reply_value (ArrayReply body)]) sb2)
          else (Some (Inl InvalidStateError), sb1))"

text \<open>
  The body of \<^verbatim>\<open>readReply\<close> on its \<^verbatim>\<open>bufferedReader\<close>, returning the reader as the call
  leaves it.
\<close>

definition readReply_buffered ::
  "nat \<Rightarrow> stream_buffer \<Rightarrow> (error + reply) option \<times> stream_buffer" where
  "readReply_buffered depth sb0 =
     (case peek 1 sb0 of
        (None, sb1) \<Rightarrow> (Some (Inl EOFError), sb1)
      | (Some firstByte, sb1) \<Rightarrow>
          if take 1 firstByte = ''-'' then
            (case readLine sb1 of
               (Some line, sb2) \<Rightarrow> (Some (Inl (tryParseErrorReply line)), sb2)
             | (None, sb2) \<Rightarrow> (Some (Inl InvalidStateError), sb2))
          else if take 1 firstByte = '':'' then
            (case readIntegerReplyBody sb1 of
               (Inl e, sb2) \<Rightarrow> (Some (Inl e), sb2)
             | (Inr body, sb2) \<Rightarrow> (Some (Inr (IntegerReply body)), sb2))
          else if take 1 firstByte = ''+'' then
            (case readSimpleStringReplyBody sb1 of
               (Inl e, sb2) \<Rightarrow> (Some (Inl e), sb2)
             | (Inr body, sb2) \<Rightarrow> (Some (Inr (SimpleStringReply body)), sb2))
          else if take 1 firstByte = ''$'' then
            (case readBulkReplyBody sb1 of
               (Inl e, sb2) \<Rightarrow> (Some (Inl e), sb2)
             | (Inr body, sb2) \<Rightarrow> (Some (Inr (BulkReply body)), sb2))
          else if take 1 firstByte = ''*'' then
            (case readArrayReplyBody depth sb1 of
               (None, sb2) \<Rightarrow> (None, sb2)
             | (Some (Inl e), sb2) \<Rightarrow> (Some (Inl e), sb2)
             | (Some (Inr body), sb2) \<Rightarrow> (Some (Inr (ArrayReply body)), sb2))
          else (Some (Inl InvalidStateError), sb1))"

text \<open>
  \<^verbatim>\<open>readReply(reader)\<close>: a new \<^verbatim>\<open>StreamBuffer\<close> is built around the stream reader on every
  call, and only the stream reader outlives the call.
\<close>

definition readReply :: "nat \<Rightarrow> bytes list \<Rightarrow> (error + reply) option \<times> bytes list" where
  "readReply depth stream =
     (case readReply_buffered depth \<lparr>buffer = [], reader = stream\<rparr> of
        (r, sb) \<Rightarrow> (r, reader sb))"

subsection \<open>Request encoding\<close>

text \<open>\<^verbatim>\<open>String(n)\<close> for an integer \<open>n\<close>.\<close>

definition digit_char :: "nat \<Rightarrow> char" where
  "digit_char d = ''0123456789'' ! d"

function show_nat :: "nat \<Rightarrow> string" where
  "show_nat n = (if n < 10 then [digit_char n] else show_nat (n div 10) @ [digit_char (n mod 10)])"
  by pat_completeness auto
termination
  by (relation "measure id") auto

declare show_nat.simps [simp del]

definition show_int :: "int \<Rightarrow> string" where
  "show_int i = (if i < 0 then CHR ''-'' # show_nat (nat (- i)) else show_nat (nat i))"

text \<open>
  \<^verbatim>\<open>s.length\<close> of the string whose UTF-8 encoding is \<open>s\<close>: one UTF-16 code unit for every
  character of one to three bytes, two for a character of four bytes, counted at the
  leading byte.
\<close>

definition utf16_units :: "char \<Rightarrow> nat" where
  "utf16_units b =
     (let k = of_char b :: nat in
      if k < 128 then 1 else if k < 192 then 0 else if k < 240 then 1 else 2)"

definition js_length :: "string \<Rightarrow> nat" where
  "js_length s = sum_list (map utf16_units s)"

text \<open>
  \<^verbatim>\<open>arg instanceof Uint8Array ? arg : encoder.encode(String(arg))\<close>. A number argument is
  an integer, printed in decimal; the exponent notation that \<^verbatim>\<open>String\<close> uses from
  \<open>10^21\<close> on and numbers that are not integers are outside the model.
\<close>

fun arg_bytes :: "redis_value \<Rightarrow> bytes" where
  "arg_bytes (VBytes b) = b"
| "arg_bytes (VString s) = s"
| "arg_bytes (VNumber n) = show_int n"
| "arg_bytes VNull = ''null''"
| "arg_bytes VUndefined = ''undefined''"

definition present :: "redis_value \<Rightarrow> bool" where
  "present v = (v \<noteq> VUndefined \<and> v \<noteq> VNull)"

definition write_bulk :: "bytes \<Rightarrow> bytes" where
  "write_bulk bs = ''$'' @ show_nat (length bs) @ CRLF @ bs @ CRLF"

text \<open>The bytes that \<^verbatim>\<open>_writeCommand\<close> writes, in order.\<close>

definition writeCommand :: "string \<Rightarrow> redis_value list \<Rightarrow> bytes" where
  "writeCommand cmd as =
     (let present_args = filter present as in
      ''*'' @ show_nat (1 + length present_args) @ CRLF
      @ ''$'' @ show_nat (js_length cmd) @ CRLF @ cmd @ CRLF
      @ concat (map (\<lambda>arg. write_bulk (arg_bytes arg)) present_args))"

subsection \<open>One command on a socket\<close>

text \<open>
  The two halves of a socket: the writes made on the writable stream, in order, and the
  chunks the readable stream will deliver. \<^verbatim>\<open>writeRequest\<close> assembles the request in a
  buffer of its own and hands it to the stream in one write; \<^verbatim>\<open>sendCommand\<close> then reads
  one reply. Writing does not fail on this socket. The first argument bounds the nesting
  depth of the reply, as for \<open>readReply\<close>.
\<close>

record socket =
  written :: "bytes list"
  readable :: "bytes list"

definition writeRequest :: "socket \<Rightarrow> string \<Rightarrow> redis_value list \<Rightarrow> socket" where
  "writeRequest s cmd as = s\<lparr>written := written s @ [writeCommand cmd as]\<rparr>"

definition sendCommand ::
  "nat \<Rightarrow> socket \<Rightarrow> string \<Rightarrow> redis_value list \<Rightarrow> (error + reply) option \<times> socket" where
  "sendCommand depth s cmd as =
     (let s1 = writeRequest s cmd as in
      case readReply depth (readable s1) of
        (r, stream) \<Rightarrow> (r, s1\<lparr>readable := stream\<rparr>))"

section \<open>A scripted connection\<close>

text \<open>
  A connection whose environment replays a script: the outcomes of the dials and of the
  commands in order, with a log of what the client did.
\<close>

datatype action =
    Dialed
  | Sent string "redis_value list"
  | CloserCalled
  | Paused int

record script =
  dials :: "error option list"
  replies :: "(error + reply) list"
  actions :: "action list"

definition scripted_dial :: "script \<Rightarrow> error option \<times> script" where
  "scripted_dial w =
     (case dials w of
        [] \<Rightarrow> (Some ConnectionRefused, w\<lparr>actions := actions w @ [Dialed]\<rparr>)
      | d # ds \<Rightarrow> (d, w\<lparr>dials := ds, actions := actions w @ [Dialed]\<rparr>))"

definition scripted_send :: "script transport" where
  "scripted_send w cmd as =
     (case replies w of
        [] \<Rightarrow> (Inl EOFError, w\<lparr>actions := actions w @ [Sent cmd as]\<rparr>)
      | r # rs \<Rightarrow> (r, w\<lparr>replies := rs, actions := actions w @ [Sent cmd as]\<rparr>))"

definition scripted :: "script network" where
  "scripted =
     \<lparr>dial = scripted_dial,
      send = scripted_send,
      closer = (\<lambda>w. (None, w\<lparr>actions := actions w @ [CloserCalled]\<rparr>)),
      pause = (\<lambda>n w. w\<lparr>actions := actions w @ [Paused n]\<rparr>)\<rparr>"

text \<open>
  The environment of a subscription on a scripted connection: \<^verbatim>\<open>exec\<close> sends at once,
  and \<^verbatim>\<open>readReply\<close> delivers the next scripted outcome.
\<close>

definition scripted_sub :: "script sub_env" where
  "scripted_sub =
     \<lparr>sub_net = scripted,
      sub_exec = (\<lambda>cw cmd as. case scripted_send (snd cw) cmd as of (r, w) \<Rightarrow> (r, fst cw, w)),
      sub_read = (\<lambda>w. case replies w of
                         [] \<Rightarrow> (Inl EOFError, w)
                       | r # rs \<Rightarrow> (r, w\<lparr>replies := rs\<rparr>))\<rparr>"

section \<open>Notions used in the statements\<close>

text \<open>
  The outcomes of the commands of a batch when each is sent in turn; a fault is an
  exception other than an error reply; \<open>captured\<close> is the element of the result that an
  outcome becomes.
\<close>

fun outcomes :: "'w transport \<Rightarrow> 'w \<Rightarrow> queued_command list \<Rightarrow> (error + reply) list" where
  "outcomes snd_cmd w [] = []"
| "outcomes snd_cmd w (c # cs) =
     (case snd_cmd w (command c) (args c) of (r, w') \<Rightarrow> r # outcomes snd_cmd w' cs)"

fun is_fault :: "error + reply \<Rightarrow> bool" where
  "is_fault (Inr r) = False"
| "is_fault (Inl (ErrorReplyError m)) = False"
| "is_fault (Inl e) = True"

fun captured :: "error + reply \<Rightarrow> raw_or_error" where
  "captured (Inr r) = ReplyValue (reply_value r)"
| "captured (Inl e) = ReplyError e"


text \<open>The bytes a buffered reader has still to deliver: its buffer, then the stream.\<close>

definition pending :: "stream_buffer \<Rightarrow> bytes" where
  "pending sb = buffer sb @ concat (reader sb)"


text \<open>Sample values.\<close>

definition demo_connection :: connection where
  "demo_connection =
     \<lparr>opt_password = None, opt_username = None, opt_db = None, name = None,
      maxRetryCount = 10, retryCount = 0, isClosed = False, isConnected = True\<rparr>"

definition demo_script :: "(error + reply) list \<Rightarrow> script" where
  "demo_script rs = \<lparr>dials = [], replies = rs, actions = []\<rparr>"


definition demo_subscription :: subscription where
  "demo_subscription = \<lparr>connection = demo_connection, channels = [''news''], patterns = []\<rparr>"

section \<open>Batched send: positional results\<close>

lemma length_outcomes: "length (outcomes snd_cmd w cs) = length cs"
  by (induction cs arbitrary: w) (auto split: prod.splits)

lemma loop_ok:
  "\<not> list_ex is_fault (outcomes snd_cmd w cs) \<Longrightarrow>
   fst (sendCommands_loop snd_cmd w cs acc) = Inr (acc @ map captured (outcomes snd_cmd w cs))"
proof (induction cs arbitrary: w acc)
  case Nil
  then show ?case by simp
next
  case (Cons c cs)
  obtain r w' where s: "snd_cmd w (command c) (args c) = (r, w')"
    by (cases "snd_cmd w (command c) (args c)")
  with Cons.prems have nf: "\<not> is_fault r" and rest: "\<not> list_ex is_fault (outcomes snd_cmd w' cs)"
    by auto
  show ?case
  proof (cases r)
    case (Inr rep)
    with s Cons.IH[OF rest] show ?thesis by simp
  next
    case (Inl e)
    with nf obtain m where "e = ErrorReplyError m" by (cases e) auto
    with Inl s Cons.IH[OF rest] show ?thesis by simp
  qed
qed

lemma loop_fault:
  "find is_fault (outcomes snd_cmd w cs) = Some (Inl e) \<Longrightarrow>
   fst (sendCommands_loop snd_cmd w cs acc) = Inl e"
proof (induction cs arbitrary: w acc)
  case Nil
  then show ?case by simp
next
  case (Cons c cs)
  obtain r w' where s: "snd_cmd w (command c) (args c) = (r, w')"
    by (cases "snd_cmd w (command c) (args c)")
  show ?case
  proof (cases "is_fault r")
    case True
    with Cons.prems s have "r = Inl e" by simp
    with True s show ?thesis by (cases e) auto
  next
    case False
    with Cons.prems s have rest: "find is_fault (outcomes snd_cmd w' cs) = Some (Inl e)" by simp
    show ?thesis
    proof (cases r)
      case (Inr rep)
      with s Cons.IH[OF rest] show ?thesis by simp
    next
      case (Inl e')
      with False obtain m where "e' = ErrorReplyError m" by (cases e') auto
      with Inl s Cons.IH[OF rest] show ?thesis by simp
    qed
  qed
qed

lemma find_fault_cases:
  "\<not> list_ex is_fault os \<or> (\<exists>e. find is_fault os = Some (Inl e))"
proof (induction os)
  case Nil
  then show ?case by simp
next
  case (Cons a os)
  then show ?case by (cases a) auto
qed

lemma sendCommands_fst: "fst (sendCommands snd_cmd w cs) = fst (sendCommands_loop snd_cmd w cs [])"
  by (cases cs) (auto simp: sendCommands_def)

lemma sendCommands_Inr:
  assumes "fst (sendCommands snd_cmd w cs) = Inr rs"
  shows "rs = map captured (outcomes snd_cmd w cs)"
proof -
  from find_fault_cases[of "outcomes snd_cmd w cs"] show ?thesis
  proof
    assume "\<not> list_ex is_fault (outcomes snd_cmd w cs)"
    from loop_ok[OF this, of "[]"] assms show ?thesis by (simp add: sendCommands_fst)
  next
    assume "\<exists>e. find is_fault (outcomes snd_cmd w cs) = Some (Inl e)"
    then obtain e where "find is_fault (outcomes snd_cmd w cs) = Some (Inl e)" ..
    from loop_fault[OF this, of "[]"] assms show ?thesis by (simp add: sendCommands_fst)
  qed
qed


lemmas script_eval = demo_script_def scripted_send_def sendCommands_def okReply_def




section \<open>Multiplexing executor: serial drain and order of replies\<close>




















lemmas mux_eval =
  mux_run_def mux_init_def dequeue_def dequeue_finally_def settle_and_shift_def
  isRetriableError_def demo_connection_def Let_def



lemma mux_retry_once:
  assumes "in_flight m = [AwaitSend item]" and "queue m = item # rest"
  shows "(0 < maxRetryCount (connection m) \<and> isRetriableError e (connection m) \<longrightarrow>
            queue (mux_step m (SendDone (Inl e))) = item # rest \<and>
            settled (mux_step m (SendDone (Inl e))) = settled m \<and>
            wire (mux_step m (SendDone (Inl e))) = wire m \<and>
            in_flight (mux_step m (SendDone (Inl e))) = [AwaitReconnect item] \<and>
            queue (mux_run m [SendDone (Inl e), ReconnectDone None]) = item # rest \<and>
            settled (mux_run m [SendDone (Inl e), ReconnectDone None]) = settled m \<and>
            wire (mux_run m [SendDone (Inl e), ReconnectDone None]) = wire m @ [item] \<and>
            in_flight (mux_run m [SendDone (Inl e), ReconnectDone None]) = [AwaitSend item] \<and>
            settled (mux_run m [SendDone (Inl e), ReconnectDone None, SendDone (Inr reply)])
              = settled m @ [(item_id item, Inr reply)] \<and>
            queue (mux_run m [SendDone (Inl e), ReconnectDone None, SendDone (Inr reply)]) = rest \<and>
            settled (mux_run m [SendDone (Inl e), ReconnectDone (Some reconnectError)])
              = settled m @ [(item_id item, Inl reconnectError)] \<and>
            queue (mux_run m [SendDone (Inl e), ReconnectDone (Some reconnectError)]) = rest)
       \<and> (\<not> (0 < maxRetryCount (connection m) \<and> isRetriableError e (connection m)) \<longrightarrow>
            settled (mux_step m (SendDone (Inl e))) = settled m @ [(item_id item, Inl e)] \<and>
            queue (mux_step m (SendDone (Inl e))) = rest)"
proof -
  have fin_q: "\<And>x. queue (dequeue_finally x) = queue x"
    by (simp add: dequeue_finally_def dequeue_def Let_def split: list.splits)
  have fin_s: "\<And>x. settled (dequeue_finally x) = settled x"
    by (simp add: dequeue_finally_def dequeue_def Let_def split: list.splits)
  show ?thesis
  proof (intro conjI impI)
    assume r: "0 < maxRetryCount (connection m) \<and> isRetriableError e (connection m)"
    let ?m1 = "mux_step m (SendDone (Inl e))"
    have m1: "?m1 = m\<lparr>in_flight := [AwaitReconnect item]\<rparr>"
      using assms r by (simp add: Let_def)
    show "queue ?m1 = item # rest" "settled ?m1 = settled m" "wire ?m1 = wire m"
      "in_flight ?m1 = [AwaitReconnect item]"
      using m1 assms by simp_all
    let ?m2 = "mux_run m [SendDone (Inl e), ReconnectDone None]"
    have m2: "?m2 = m\<lparr>isProcessing := True, in_flight := [AwaitSend item], wire := wire m @ [item]\<rparr>"
      using assms m1 by (simp add: mux_run_def Let_def dequeue_finally_def dequeue_def)
    show "queue ?m2 = item # rest" "settled ?m2 = settled m" "wire ?m2 = wire m @ [item]"
      "in_flight ?m2 = [AwaitSend item]"
      using m2 assms by simp_all
    have m3: "mux_run m [SendDone (Inl e), ReconnectDone None, SendDone (Inr reply)]
        = mux_step ?m2 (SendDone (Inr reply))"
      by (simp add: mux_run_def)
    show "settled (mux_run m [SendDone (Inl e), ReconnectDone None, SendDone (Inr reply)])
              = settled m @ [(item_id item, Inr reply)]"
      unfolding m3 m2 using assms by (simp add: Let_def fin_s settle_and_shift_def)
    show "queue (mux_run m [SendDone (Inl e), ReconnectDone None, SendDone (Inr reply)]) = rest"
      unfolding m3 m2 using assms by (simp add: Let_def fin_q settle_and_shift_def)
    have m2': "mux_run m [SendDone (Inl e), ReconnectDone (Some reconnectError)]
        = mux_step ?m1 (ReconnectDone (Some reconnectError))"
      by (simp add: mux_run_def)
    show "settled (mux_run m [SendDone (Inl e), ReconnectDone (Some reconnectError)])
              = settled m @ [(item_id item, Inl reconnectError)]"
      unfolding m2' m1 using assms by (simp add: Let_def fin_s settle_and_shift_def)
    show "queue (mux_run m [SendDone (Inl e), ReconnectDone (Some reconnectError)]) = rest"
      unfolding m2' m1 using assms by (simp add: Let_def fin_q settle_and_shift_def)
  next
    assume n: "\<not> (0 < maxRetryCount (connection m) \<and> isRetriableError e (connection m))"
    show "settled (mux_step m (SendDone (Inl e))) = settled m @ [(item_id item, Inl e)]"
      using assms n by (auto simp add: Let_def fin_s settle_and_shift_def)
  next
    assume n: "\<not> (0 < maxRetryCount (connection m) \<and> isRetriableError e (connection m))"
    show "queue (mux_step m (SendDone (Inl e))) = rest"
      using assms n by (auto simp add: Let_def fin_q settle_and_shift_def)
  qed
qed

lemma mux_run_append: "mux_run m (xs @ ys) = mux_run (mux_run m xs) ys"
  by (simp add: mux_run_def)

lemma retry_round:
  assumes "in_flight m = [AwaitSend item]" and "queue m = item # rest"
    and "0 < maxRetryCount (connection m)" and "isRetriableError e (connection m)"
  shows "mux_run m [SendDone (Inl e), ReconnectDone None]
         = m\<lparr>isProcessing := True, in_flight := [AwaitSend item], wire := wire m @ [item]\<rparr>"
  using assms by (simp add: mux_run_def Let_def dequeue_finally_def dequeue_def)

lemma retry_rounds:
  assumes "in_flight m = [AwaitSend item]" and "queue m = item # rest"
    and "0 < maxRetryCount (connection m)" and "isRetriableError e (connection m)"
  shows "in_flight (mux_run m (concat (replicate k [SendDone (Inl e), ReconnectDone None])))
           = [AwaitSend item]
       \<and> queue (mux_run m (concat (replicate k [SendDone (Inl e), ReconnectDone None])))
           = item # rest
       \<and> settled (mux_run m (concat (replicate k [SendDone (Inl e), ReconnectDone None])))
           = settled m
       \<and> wire (mux_run m (concat (replicate k [SendDone (Inl e), ReconnectDone None])))
           = wire m @ replicate k item"
  using assms
proof (induction k arbitrary: m)
  case 0
  then show ?case by (simp add: mux_run_def)
next
  case (Suc k)
  let ?m1 = "m\<lparr>isProcessing := True, in_flight := [AwaitSend item], wire := wire m @ [item]\<rparr>"
  have step: "mux_run m (concat (replicate (Suc k) [SendDone (Inl e), ReconnectDone None]))
      = mux_run ?m1 (concat (replicate k [SendDone (Inl e), ReconnectDone None]))"
    using retry_round[OF Suc.prems] mux_run_append[of m "[SendDone (Inl e), ReconnectDone None]"]
    by simp
  have "in_flight ?m1 = [AwaitSend item]" "queue ?m1 = item # rest"
    "0 < maxRetryCount (connection ?m1)" "isRetriableError e (connection ?m1)"
    using Suc.prems by simp_all
  from Suc.IH[OF this] show ?case
    unfolding step by (simp add: replicate_append_same)
qed

lemma reply_after_rounds:
  assumes "in_flight m = [AwaitSend item]" and "queue m = item # rest"
    and "0 < maxRetryCount (connection m)" and "isRetriableError e (connection m)"
  shows "settled (mux_run m (concat (replicate k [SendDone (Inl e), ReconnectDone None])
                             @ [SendDone (Inr reply)]))
           = settled m @ [(item_id item, Inr reply)]
       \<and> queue (mux_run m (concat (replicate k [SendDone (Inl e), ReconnectDone None])
                             @ [SendDone (Inr reply)])) = rest"
proof -
  let ?mk = "mux_run m (concat (replicate k [SendDone (Inl e), ReconnectDone None]))"
  from retry_rounds[OF assms, of k]
  have f: "in_flight ?mk = [AwaitSend item]" and q: "queue ?mk = item # rest"
    and s: "settled ?mk = settled m" by simp_all
  have fin_q: "\<And>x. queue (dequeue_finally x) = queue x"
    by (simp add: dequeue_finally_def dequeue_def Let_def split: list.splits)
  have fin_s: "\<And>x. settled (dequeue_finally x) = settled x"
    by (simp add: dequeue_finally_def dequeue_def Let_def split: list.splits)
  have "mux_run m (concat (replicate k [SendDone (Inl e), ReconnectDone None]) @ [SendDone (Inr reply)])
      = mux_step ?mk (SendDone (Inr reply))"
    by (simp add: mux_run_def)
  then show ?thesis using f q s
    by (simp add: Let_def fin_q fin_s settle_and_shift_def)
qed

text \<open>
  Claim C2. With the head in flight: when its send fails with a retriable error and the
  retry budget is positive, the head stays queued and unsettled while the session
  reconnects; after the reconnect the same head is sent again, and its reply then
  resolves the caller; when the reconnect fails the caller is rejected with that error
  and the head is popped. When the error is not retriable or the budget is not positive,
  the caller is rejected with the error and the head is popped. However many times the
  send fails with a retriable error and the reconnect succeeds, the reply that comes at
  last resolves the caller: the multiplexer tests the budget and does not consume it.
\<close>

theorem mux_retry_resends_head:
  assumes "in_flight m = [AwaitSend item]" and "queue m = item # rest"
  shows "(0 < maxRetryCount (connection m) \<and> isRetriableError e (connection m) \<longrightarrow>
            queue (mux_step m (SendDone (Inl e))) = item # rest \<and>
            settled (mux_step m (SendDone (Inl e))) = settled m \<and>
            wire (mux_step m (SendDone (Inl e))) = wire m \<and>
            in_flight (mux_step m (SendDone (Inl e))) = [AwaitReconnect item] \<and>
            queue (mux_run m [SendDone (Inl e), ReconnectDone None]) = item # rest \<and>
            settled (mux_run m [SendDone (Inl e), ReconnectDone None]) = settled m \<and>
            wire (mux_run m [SendDone (Inl e), ReconnectDone None]) = wire m @ [item] \<and>
            in_flight (mux_run m [SendDone (Inl e), ReconnectDone None]) = [AwaitSend item] \<and>
            settled (mux_run m [SendDone (Inl e), ReconnectDone None, SendDone (Inr reply)])
              = settled m @ [(item_id item, Inr reply)] \<and>
            queue (mux_run m [SendDone (Inl e), ReconnectDone None, SendDone (Inr reply)]) = rest \<and>
            settled (mux_run m [SendDone (Inl e), ReconnectDone (Some reconnectError)])
              = settled m @ [(item_id item, Inl reconnectError)] \<and>
            queue (mux_run m [SendDone (Inl e), ReconnectDone (Some reconnectError)]) = rest)
       \<and> (\<not> (0 < maxRetryCount (connection m) \<and> isRetriableError e (connection m)) \<longrightarrow>
            settled (mux_step m (SendDone (Inl e))) = settled m @ [(item_id item, Inl e)] \<and>
            queue (mux_step m (SendDone (Inl e))) = rest)
       \<and> (0 < maxRetryCount (connection m) \<and> isRetriableError e (connection m) \<longrightarrow>
            settled (mux_run m (concat (replicate k [SendDone (Inl e), ReconnectDone None])
                                @ [SendDone (Inr reply)]))
              = settled m @ [(item_id item, Inr reply)] \<and>
            queue (mux_run m (concat (replicate k [SendDone (Inl e), ReconnectDone None])
                                @ [SendDone (Inr reply)])) = rest)"
  using mux_retry_once[OF assms, of e reply reconnectError]
        reply_after_rounds[OF assms, of e k reply]
  by blast

theorem mux_retry_resends_head_witness:
  "in_flight (mux_run (mux_init demo_connection) [Exec 7 ''GET'' [VString ''k'']])
     = [AwaitSend \<lparr>item_id = 7, item_command = ''GET'', item_args = [VString ''k'']\<rparr>]
   \<and> 0 < maxRetryCount (connection (mux_run (mux_init demo_connection) [Exec 7 ''GET'' [VString ''k'']]))
   \<and> isRetriableError ConnectionReset
         (connection (mux_run (mux_init demo_connection) [Exec 7 ''GET'' [VString ''k'']]))
   \<and> settled (mux_run (mux_run (mux_init demo_connection) [Exec 7 ''GET'' [VString ''k'']])
         [SendDone (Inl ConnectionReset), ReconnectDone None, SendDone (Inr (BulkReply (Some ''v'')))])
     = [(7, Inr (BulkReply (Some ''v'')))]
   \<and> wire (mux_run (mux_run (mux_init demo_connection) [Exec 7 ''GET'' [VString ''k'']])
         [SendDone (Inl ConnectionReset), ReconnectDone None])
     = [\<lparr>item_id = 7, item_command = ''GET'', item_args = [VString ''k'']\<rparr>,
        \<lparr>item_id = 7, item_command = ''GET'', item_args = [VString ''k'']\<rparr>]
   \<and> settled (mux_run (mux_run (mux_init demo_connection) [Exec 7 ''GET'' [VString ''k'']])
         (concat (replicate 2 [SendDone (Inl ConnectionReset), ReconnectDone None])
          @ [SendDone (Inr (BulkReply (Some ''v'')))]))
     = [(7, Inr (BulkReply (Some ''v'')))]
   \<and> \<not> isRetriableError InvalidStateError
         (connection (mux_run (mux_init demo_connection) [Exec 7 ''GET'' [VString ''k'']]))
   \<and> settled (mux_step (mux_run (mux_init demo_connection) [Exec 7 ''GET'' [VString ''k'']])
         (SendDone (Inl InvalidStateError)))
     = [(7, Inl InvalidStateError)]"
proof -
  let ?it = "\<lparr>item_id = 7, item_command = ''GET'', item_args = [VString ''k'']\<rparr>"
  let ?m = "mux_run (mux_init demo_connection) [Exec 7 ''GET'' [VString ''k'']]"
  have f: "in_flight ?m = [AwaitSend ?it]" and q: "queue ?m = ?it # []"
    and s: "settled ?m = []" and w: "wire ?m = [?it]"
    and b: "0 < maxRetryCount (connection ?m)"
    and r: "isRetriableError ConnectionReset (connection ?m)"
    and n: "\<not> isRetriableError InvalidStateError (connection ?m)"
    by (simp_all add: mux_eval)
  from mux_retry_resends_head[OF f q, of ConnectionReset "BulkReply (Some ''v'')" _ 2]
       mux_retry_resends_head[OF f q, of InvalidStateError]
       f s w b r n
  show ?thesis by simp
qed

section \<open>Submission on a closed connection\<close>

lemma connection_dequeue: "connection (dequeue m) = connection m"
  by (simp add: dequeue_def split: list.splits)

lemma connection_dequeue_finally: "connection (dequeue_finally m) = connection m"
  by (simp add: dequeue_finally_def connection_dequeue Let_def)

lemma closed_step:
  "isClosed (connection m) \<Longrightarrow> ev \<noteq> Reopened \<Longrightarrow> isClosed (connection (mux_step m ev))"
  by (cases ev)
     (auto simp: connection_dequeue connection_dequeue_finally settle_and_shift_def Let_def
           split: list.splits pending_io.splits sum.splits option.splits)

lemma closed_foldl:
  "isClosed (connection m) \<Longrightarrow> Reopened \<notin> set es \<Longrightarrow> isClosed (connection (foldl mux_step m es))"
  by (induction es arbitrary: m) (auto simp: closed_step)

text \<open>
  Claim C9, as amended. Once \<^verbatim>\<open>close()\<close> has set the closed flag, and as long as no
  dial clears it again, every \<^verbatim>\<open>exec\<close> of the multiplexing executor rejects its caller
  with \<^verbatim>\<open>ConnectionClosedError\<close> and leaves the queue, the suspended runs and the wire
  as they are.
\<close>

theorem mux_exec_after_close:
  assumes "Reopened \<notin> set es"
  shows "mux_step (mux_run (mux_step m Closed) es) (Exec i cmd as)
         = (mux_run (mux_step m Closed) es)
             \<lparr>refused := refused (mux_run (mux_step m Closed) es) @ [(i, ConnectionClosedError)]\<rparr>"
proof -
  have "isClosed (connection (mux_step m Closed))" by simp
  with assms have "isClosed (connection (mux_run (mux_step m Closed) es))"
    unfolding mux_run_def by (rule closed_foldl[rotated])
  then show ?thesis by simp
qed

theorem mux_exec_after_close_witness:
  "Reopened \<notin> set [Exec 1 ''PING'' [], SendDone (Inl BadResource)]
   \<and> refused (mux_step (mux_run (mux_step (mux_init demo_connection) Closed)
                  [Exec 1 ''PING'' [], SendDone (Inl BadResource)]) (Exec 2 ''GET'' [VString ''k'']))
       = [(1, ConnectionClosedError), (2, ConnectionClosedError)]
   \<and> wire (mux_step (mux_run (mux_step (mux_init demo_connection) Closed)
                  [Exec 1 ''PING'' [], SendDone (Inl BadResource)]) (Exec 2 ''GET'' [VString ''k''])) = []"
proof -
  have h: "Reopened \<notin> set [Exec 1 ''PING'' [], SendDone (Inl BadResource)]" by simp
  have r: "refused (mux_run (mux_step (mux_init demo_connection) Closed)
                  [Exec 1 ''PING'' [], SendDone (Inl BadResource)]) = [(1, ConnectionClosedError)]"
    and w: "wire (mux_run (mux_step (mux_init demo_connection) Closed)
                  [Exec 1 ''PING'' [], SendDone (Inl BadResource)]) = []"
    by (simp_all add: mux_eval)
  from mux_exec_after_close[OF h, of "mux_init demo_connection" 2 "''GET''" "[VString ''k'']"] r w h
  show ?thesis by simp
qed

text \<open>
  Claim C9 as stated fails for the pipeline executor, whose \<^verbatim>\<open>exec\<close> does not read the
  closed flag: on a closed connection it queues the command and resolves with
  \<^verbatim>\<open>okReply\<close>.
\<close>

theorem pipeline_exec_closed_counterexample:
  "isClosed (connection \<lparr>connection = demo_connection\<lparr>isClosed := True, isConnected := False\<rparr>,
                         commands = [], tx = False\<rparr>)
   \<and> pipeline_exec \<lparr>connection = demo_connection\<lparr>isClosed := True, isConnected := False\<rparr>,
                    commands = [], tx = False\<rparr> ''GET'' [VString ''k'']
     = (Inr (SimpleStringReply ''OK''),
        \<lparr>connection = demo_connection\<lparr>isClosed := True, isConnected := False\<rparr>,
         commands = [\<lparr>command = ''GET'', args = [VString ''k'']\<rparr>], tx = False\<rparr>)"
  by (simp add: pipeline_exec_def okReply_def)

section \<open>Pipeline flush\<close>

lemma sendCommands_length:
  "fst (sendCommands snd_cmd w cs) = Inr rs \<Longrightarrow> length rs = length cs"
  using sendCommands_Inr[of snd_cmd w cs rs] by (simp add: length_outcomes)

text \<open>
  Claim C7, as amended. \<^verbatim>\<open>flush\<close> leaves the queue empty whatever the batched send
  returns or throws, so a later \<^verbatim>\<open>exec\<close> starts a new queue; what it hands to the
  batched send is the snapshot, between \<^verbatim>\<open>MULTI\<close> and \<^verbatim>\<open>EXEC\<close> in transactional mode;
  with an empty snapshot outside transactional mode it returns the empty list and
  sends nothing; a returned list has one element per command sent.
\<close>

theorem flush_snapshot_and_frame:
  assumes "flush snd_cmd (p, w) = (res, p', w')"
  shows "commands p' = [] \<and> tx p' = tx p \<and> connection p' = connection p
     \<and> (tx p \<longrightarrow> (res, w') = sendCommands snd_cmd w
            (\<lparr>command = ''MULTI'', args = []\<rparr> # commands p @ [\<lparr>command = ''EXEC'', args = []\<rparr>]))
     \<and> (\<not> tx p \<longrightarrow> (res, w') = sendCommands snd_cmd w (commands p))
     \<and> (\<not> tx p \<and> commands p = [] \<longrightarrow> res = Inr [] \<and> w' = w)
     \<and> (\<forall>rs. res = Inr rs \<longrightarrow> length rs = length (commands p) + (if tx p then 2 else 0))
     \<and> (\<forall>cmd as. commands (snd (pipeline_exec p' cmd as)) = [\<lparr>command = cmd, args = as\<rparr>])"
proof -
  have p': "p' = p\<lparr>commands := []\<rparr>"
    using assms by (auto simp: flush_def Let_def split: if_splits prod.splits)
  have sent: "(res, w') = sendCommands snd_cmd w (frame_commands (tx p) (commands p))"
    using assms by (auto simp: flush_def Let_def sendCommands_def split: if_splits prod.splits)
  have len: "\<forall>rs. res = Inr rs \<longrightarrow> length rs = length (commands p) + (if tx p then 2 else 0)"
  proof (intro allI impI)
    fix rs assume "res = Inr rs"
    with sent have "fst (sendCommands snd_cmd w (frame_commands (tx p) (commands p))) = Inr rs"
      by (metis fst_conv)
    from sendCommands_length[OF this] show "length rs = length (commands p) + (if tx p then 2 else 0)"
      by (simp add: frame_commands_def)
  qed
  have e: "\<not> tx p \<and> commands p = [] \<longrightarrow> res = Inr [] \<and> w' = w"
    using sent by (auto simp: frame_commands_def sendCommands_def)
  show ?thesis
    using p' sent len e by (simp add: frame_commands_def pipeline_exec_def)
qed

theorem flush_snapshot_and_frame_witness:
  "flush scripted_send
     (\<lparr>connection = demo_connection,
       commands = [\<lparr>command = ''INCR'', args = [VString ''c'']\<rparr>], tx = True\<rparr>,
      demo_script [Inr okReply, Inl BrokenPipe])
   = (Inl BrokenPipe,
      \<lparr>connection = demo_connection, commands = [], tx = True\<rparr>,
      \<lparr>dials = [], replies = [],
       actions = [Sent ''MULTI'' [], Sent ''INCR'' [VString ''c'']]\<rparr>)
   \<and> sendCommands scripted_send (demo_script [Inr okReply, Inl BrokenPipe])
       [\<lparr>command = ''MULTI'', args = []\<rparr>, \<lparr>command = ''INCR'', args = [VString ''c'']\<rparr>,
        \<lparr>command = ''EXEC'', args = []\<rparr>]
     = (Inl BrokenPipe,
        \<lparr>dials = [], replies = [],
         actions = [Sent ''MULTI'' [], Sent ''INCR'' [VString ''c'']]\<rparr>)
   \<and> flush scripted_send
       (\<lparr>connection = demo_connection, commands = [], tx = False\<rparr>, demo_script [Inr okReply])
     = (Inr [], \<lparr>connection = demo_connection, commands = [], tx = False\<rparr>, demo_script [Inr okReply])"
proof -
  have a: "flush scripted_send
     (\<lparr>connection = demo_connection,
       commands = [\<lparr>command = ''INCR'', args = [VString ''c'']\<rparr>], tx = True\<rparr>,
      demo_script [Inr okReply, Inl BrokenPipe])
   = (Inl BrokenPipe,
      \<lparr>connection = demo_connection, commands = [], tx = True\<rparr>,
      \<lparr>dials = [], replies = [],
       actions = [Sent ''MULTI'' [], Sent ''INCR'' [VString ''c'']]\<rparr>)"
    by (simp add: flush_def frame_commands_def script_eval Let_def)
  have b: "flush scripted_send
       (\<lparr>connection = demo_connection, commands = [], tx = False\<rparr>, demo_script [Inr okReply])
     = (Inr [], \<lparr>connection = demo_connection, commands = [], tx = False\<rparr>, demo_script [Inr okReply])"
    by (simp add: flush_def frame_commands_def script_eval Let_def)
  from flush_snapshot_and_frame[OF a] flush_snapshot_and_frame[OF b] a b
  show ?thesis by simp
qed

text \<open>
  Claim C7 as stated fails in transactional mode: with an empty snapshot \<^verbatim>\<open>flush\<close>
  sends \<^verbatim>\<open>MULTI\<close> and \<^verbatim>\<open>EXEC\<close> and returns their two replies.
\<close>

theorem flush_empty_tx_counterexample:
  "commands \<lparr>connection = demo_connection, commands = [], tx = True\<rparr> = []
   \<and> fst (flush scripted_send
       (\<lparr>connection = demo_connection, commands = [], tx = True\<rparr>,
        demo_script [Inr okReply, Inr (ArrayReply (Some []))]))
     = Inr [ReplyValue (RawString ''OK''), ReplyValue (RawArray [])]
   \<and> actions (snd (snd (flush scripted_send
       (\<lparr>connection = demo_connection, commands = [], tx = True\<rparr>,
        demo_script [Inr okReply, Inr (ArrayReply (Some []))]))))
     = [Sent ''MULTI'' [], Sent ''EXEC'' []]"
  by (simp add: flush_def frame_commands_def script_eval Let_def)

section \<open>Connection establishment: a rejected AUTH\<close>

lemma connect_attempt_auth_rejected:
  assumes "opt_password c = Some pw"
    and "dial N w = (None, w1)"
    and "send N w1 ''AUTH''
           (if pw \<noteq> [] \<and> truthy (opt_username c)
            then [VString (the (opt_username c)), VString pw] else [VString pw])
         = (Inl (ErrorReplyError msg), w2)"
    and "closer N w2 = (r, w3)" and "r = None \<or> r = Some BadResource"
  shows "connect_attempt N (c, w)
         = (Some (AuthenticationError ''Authentication failed''),
            c\<lparr>isClosed := True, isConnected := False\<rparr>, w3)"
  using assms
  by (auto simp: connect_attempt_def handshake_def authenticate_def conn_sendCommand_def
        close_def Let_def)

text \<open>
  Claim C8. When a password is set, the dial succeeds and the server answers \<^verbatim>\<open>AUTH\<close>
  with an error reply, \<^verbatim>\<open>connect\<close> throws one \<^verbatim>\<open>AuthenticationError\<close> after exactly
  one dial, the \<^verbatim>\<open>AUTH\<close> command and the close of the socket: there is no backoff delay
  and no further dial, whatever \<^verbatim>\<open>maxRetryCount\<close> and \<^verbatim>\<open>retryCount\<close> are, and the retry
  counter is left at 0. (The closer is assumed to throw nothing but \<^verbatim>\<open>BadResource\<close>.)
\<close>

theorem connect_auth_rejected:
  assumes "opt_password c = Some pw"
    and "dial N w = (None, w1)"
    and "send N w1 ''AUTH''
           (if pw \<noteq> [] \<and> truthy (opt_username c)
            then [VString (the (opt_username c)), VString pw] else [VString pw])
         = (Inl (ErrorReplyError msg), w2)"
    and "closer N w2 = (r, w3)" and "r = None \<or> r = Some BadResource"
  shows "connect N (c, w)
         = (Some (AuthenticationError ''Authentication failed''),
            c\<lparr>isClosed := True, isConnected := False, retryCount := 0\<rparr>, w3)"
  using connect_attempt_auth_rejected[OF assms]
  by (simp add: connect.simps[of N "(c, w)"])

theorem connect_auth_rejected_witness:
  "connect scripted
     (demo_connection\<lparr>opt_password := Some ''wrong'', maxRetryCount := 10\<rparr>,
      \<lparr>dials = [None, None, None], replies = [Inl (ErrorReplyError ''-WRONGPASS'')], actions = []\<rparr>)
   = (Some (AuthenticationError ''Authentication failed''),
      demo_connection\<lparr>opt_password := Some ''wrong'', maxRetryCount := 10,
                       isClosed := True, isConnected := False, retryCount := 0\<rparr>,
      \<lparr>dials = [None, None], replies = [],
       actions = [Dialed, Sent ''AUTH'' [VString ''wrong''], CloserCalled]\<rparr>)"
proof -
  let ?c = "demo_connection\<lparr>opt_password := Some ''wrong'', maxRetryCount := 10\<rparr>"
  let ?w = "\<lparr>dials = [None, None, None], replies = [Inl (ErrorReplyError ''-WRONGPASS'')], actions = []\<rparr>"
  let ?w1 = "\<lparr>dials = [None, None], replies = [Inl (ErrorReplyError ''-WRONGPASS'')], actions = [Dialed]\<rparr>"
  let ?w2 = "\<lparr>dials = [None, None], replies = [], actions = [Dialed, Sent ''AUTH'' [VString ''wrong'']]\<rparr>"
  let ?w3 = "\<lparr>dials = [None, None], replies = [],
       actions = [Dialed, Sent ''AUTH'' [VString ''wrong''], CloserCalled]\<rparr>"
  have 1: "opt_password ?c = Some ''wrong''" by simp
  have 2: "dial scripted ?w = (None, ?w1)" by (simp add: scripted_def scripted_dial_def)
  have 3: "send scripted ?w1 ''AUTH''
           (if ''wrong'' \<noteq> [] \<and> truthy (opt_username ?c)
            then [VString (the (opt_username ?c)), VString ''wrong''] else [VString ''wrong''])
         = (Inl (ErrorReplyError ''-WRONGPASS''), ?w2)"
    by (simp add: scripted_def scripted_send_def truthy_def demo_connection_def)
  have 4: "closer scripted ?w2 = (None, ?w3)" by (simp add: scripted_def)
  have 5: "(None :: error option) = None \<or> (None :: error option) = Some BadResource" by simp
  from connect_auth_rejected[OF 1 2 3 4 5] show ?thesis by simp
qed

section \<open>Subscription session: what a turn of the message loop does with a frame\<close>

lemma receive_turn_array:
  assumes "isConnected (connection s)" and "sub_read E w = (Inr (ArrayReply (Some xs)), w1)"
  shows "receive_turn E binary (s, w) = (dispatch_rep binary (Some xs), s, w1)"
  using assms
  by (auto simp: receive_turn_def receive_inner_def dispatch_rep_def Let_def)

lemma receive_turn_not_array:
  assumes "sub_read E w = (Inr reply, w1)" and "reply_array reply = Inl err"
  shows "receive_turn E binary (s, w)
         = (case recover E (s, w1) of
              (None, s2, w2) \<Rightarrow> (Dropped, s2, w2)
            | (Some e, s2, w2) \<Rightarrow> (Raised e, s2, w2))"
proof -
  from assms(2) have "err = InvalidStateError" by (cases reply) auto
  with assms show ?thesis
    by (simp add: receive_turn_def receive_inner_def Let_def)
qed

lemma receive_turn_error_reply:
  assumes "isConnected (connection s)" and "sub_read E w = (Inl (ErrorReplyError msg), w1)"
  shows "receive_turn E binary (s, w) = (Raised (ErrorReplyError msg), s, w1)"
  using assms
  by (simp add: receive_turn_def receive_inner_def Let_def)

lemma receive_turn_yield_only:
  assumes "isConnected (connection s)" and "sub_read E w = (r, w1)"
    and "fst (receive_turn E binary (s, w)) = Yielded m"
  shows "\<exists>xs. r = Inr (ArrayReply (Some xs)) \<and> dispatch_rep binary (Some xs) = Yielded m"
proof (cases r)
  case (Inl err)
  with assms show ?thesis
    by (auto simp: receive_turn_def receive_inner_def Let_def close_def
             split: if_splits prod.splits option.splits)
next
  case (Inr reply)
  show ?thesis
  proof (cases reply)
    case (ArrayReply body)
    show ?thesis
    proof (cases body)
      case None
      with assms Inr ArrayReply show ?thesis
        by (auto simp: receive_turn_def receive_inner_def dispatch_rep_def Let_def
                 split: if_splits prod.splits option.splits)
    next
      case (Some xs)
      with assms Inr ArrayReply receive_turn_array[of s E w xs w1 binary] show ?thesis by simp
    qed
  next
    case (SimpleStringReply b)
    then have "reply_array reply = Inl InvalidStateError" by simp
    from receive_turn_not_array[OF _ this, of E w w1 binary s] assms Inr show ?thesis
      by (auto split: prod.splits option.splits)
  next
    case (BulkReply b)
    then have "reply_array reply = Inl InvalidStateError" by simp
    from receive_turn_not_array[OF _ this, of E w w1 binary s] assms Inr show ?thesis
      by (auto split: prod.splits option.splits)
  next
    case (IntegerReply b)
    then have "reply_array reply = Inl InvalidStateError" by simp
    from receive_turn_not_array[OF _ this, of E w w1 binary s] assms Inr show ?thesis
      by (auto split: prod.splits option.splits)
  qed
qed

text \<open>
  Claim C10, as amended. In a turn of the loop of \<^verbatim>\<open>#_receive\<close> on a connected session:
  an array frame yields a record exactly when its first element is \<^verbatim>\<open>"message"\<close> and it
  has 3 elements (channel, payload) or its first element is \<^verbatim>\<open>"pmessage"\<close> and it has 4
  (pattern, channel, payload), and every other array frame is dropped with the session
  unchanged; nothing but such an array frame yields a record; a frame that is not an
  array yields nothing and makes the session reconnect and replay its subscriptions, an
  error of that recovery being raised; an error reply is raised to the consumer.
\<close>

theorem receive_turn_frames:
  assumes "isConnected (connection s)" and "sub_read E w = (r, w1)"
  shows "(\<forall>xs. r = Inr (ArrayReply (Some xs)) \<longrightarrow>
            receive_turn E binary (s, w) =
              (if xs \<noteq> [] \<and> xs ! 0 = RawString ''message'' \<and> length xs = 3
               then Yielded \<lparr>msg_pattern = None, msg_channel = xs ! 1, msg_payload = xs ! 2\<rparr>
               else if xs \<noteq> [] \<and> xs ! 0 = RawString ''pmessage'' \<and> length xs = 4
               then Yielded \<lparr>msg_pattern = Some (xs ! 1), msg_channel = xs ! 2, msg_payload = xs ! 3\<rparr>
               else Dropped, s, w1))
       \<and> (\<forall>m. fst (receive_turn E binary (s, w)) = Yielded m \<longrightarrow>
            (\<exists>xs. r = Inr (ArrayReply (Some xs)) \<and> xs \<noteq> [] \<and>
                  (xs ! 0 = RawString ''message'' \<and> length xs = 3 \<or>
                   xs ! 0 = RawString ''pmessage'' \<and> length xs = 4)))
       \<and> (\<forall>reply err. r = Inr reply \<and> reply_array reply = Inl err \<longrightarrow>
            receive_turn E binary (s, w) =
              (case recover E (s, w1) of
                 (None, s2, w2) \<Rightarrow> (Dropped, s2, w2)
               | (Some e, s2, w2) \<Rightarrow> (Raised e, s2, w2)))
       \<and> (\<forall>msg. r = Inl (ErrorReplyError msg) \<longrightarrow>
            receive_turn E binary (s, w) = (Raised (ErrorReplyError msg), s, w1))"
proof (intro conjI allI impI)
  fix xs assume "r = Inr (ArrayReply (Some xs))"
  with assms receive_turn_array[of s E w xs w1 binary]
  show "receive_turn E binary (s, w) =
              (if xs \<noteq> [] \<and> xs ! 0 = RawString ''message'' \<and> length xs = 3
               then Yielded \<lparr>msg_pattern = None, msg_channel = xs ! 1, msg_payload = xs ! 2\<rparr>
               else if xs \<noteq> [] \<and> xs ! 0 = RawString ''pmessage'' \<and> length xs = 4
               then Yielded \<lparr>msg_pattern = Some (xs ! 1), msg_channel = xs ! 2, msg_payload = xs ! 3\<rparr>
               else Dropped, s, w1)"
    by (simp add: dispatch_rep_def)
next
  fix m assume "fst (receive_turn E binary (s, w)) = Yielded m"
  from receive_turn_yield_only[OF assms this]
  show "\<exists>xs. r = Inr (ArrayReply (Some xs)) \<and> xs \<noteq> [] \<and>
                  (xs ! 0 = RawString ''message'' \<and> length xs = 3 \<or>
                   xs ! 0 = RawString ''pmessage'' \<and> length xs = 4)"
    by (auto simp: dispatch_rep_def split: if_splits)
next
  fix reply err assume "r = Inr reply \<and> reply_array reply = Inl err"
  with assms receive_turn_not_array[of E w reply w1 err binary s]
  show "receive_turn E binary (s, w) =
              (case recover E (s, w1) of
                 (None, s2, w2) \<Rightarrow> (Dropped, s2, w2)
               | (Some e, s2, w2) \<Rightarrow> (Raised e, s2, w2))"
    by simp
next
  fix msg assume "r = Inl (ErrorReplyError msg)"
  with assms receive_turn_error_reply[of s E w msg w1 binary]
  show "receive_turn E binary (s, w) = (Raised (ErrorReplyError msg), s, w1)" by simp
qed

lemmas sub_eval =
  receive_turn_def receive_inner_def dispatch_rep_def recover_def reconnect_def subscribe_def
  psubscribe_def add_key_def scripted_sub_def demo_subscription_def
  conn_sendCommand_def close_def scripted_def scripted_dial_def scripted_send_def
  demo_connection_def Let_def

theorem receive_turn_frames_witness:
  "isConnected (connection demo_subscription)
   \<and> receive_turn scripted_sub False
       (demo_subscription,
        \<lparr>dials = [],
         replies = [Inr (ArrayReply (Some [RawString ''message'', RawString ''news'', RawString ''hello'']))],
         actions = []\<rparr>)
     = (Yielded \<lparr>msg_pattern = None, msg_channel = RawString ''news'', msg_payload = RawString ''hello''\<rparr>,
        demo_subscription, \<lparr>dials = [], replies = [], actions = []\<rparr>)
   \<and> receive_turn scripted_sub False
       (demo_subscription,
        \<lparr>dials = [],
         replies = [Inr (ArrayReply (Some [RawString ''subscribe'', RawString ''news'', RawInteger (Some 1)]))],
         actions = []\<rparr>)
     = (Dropped, demo_subscription, \<lparr>dials = [], replies = [], actions = []\<rparr>)
   \<and> receive_turn scripted_sub False
       (demo_subscription,
        \<lparr>dials = [],
         replies = [Inl (ErrorReplyError ''-ERR x'')],
         actions = []\<rparr>)
     = (Raised (ErrorReplyError ''-ERR x''), demo_subscription,
        \<lparr>dials = [], replies = [], actions = []\<rparr>)"
proof -
  let ?w0 = "\<lparr>dials = [], replies = [], actions = []\<rparr> :: script"
  have c: "isConnected (connection demo_subscription)"
    by (simp add: demo_subscription_def demo_connection_def)
  have r1: "sub_read scripted_sub \<lparr>dials = [],
         replies = [Inr (ArrayReply (Some [RawString ''message'', RawString ''news'', RawString ''hello'']))],
         actions = []\<rparr>
     = (Inr (ArrayReply (Some [RawString ''message'', RawString ''news'', RawString ''hello''])), ?w0)"
    by (simp add: scripted_sub_def)
  have r2: "sub_read scripted_sub \<lparr>dials = [],
         replies = [Inr (ArrayReply (Some [RawString ''subscribe'', RawString ''news'', RawInteger (Some 1)]))],
         actions = []\<rparr>
     = (Inr (ArrayReply (Some [RawString ''subscribe'', RawString ''news'', RawInteger (Some 1)])), ?w0)"
    by (simp add: scripted_sub_def)
  have r3: "sub_read scripted_sub \<lparr>dials = [],
         replies = [Inl (ErrorReplyError ''-ERR x'')],
         actions = []\<rparr>
     = (Inl (ErrorReplyError ''-ERR x''), ?w0)"
    by (simp add: scripted_sub_def)
  from receive_turn_frames[OF c r1, of False] receive_turn_frames[OF c r2, of False]
       receive_turn_frames[OF c r3, of False] c
  show ?thesis by simp
qed

text \<open>
  Claim C10 as stated fails: an error-reply frame is raised to the consumer, and an
  integer frame is not dropped silently but answered by a \<^verbatim>\<open>PING\<close> and a new
  \<^verbatim>\<open>SUBSCRIBE\<close>.
\<close>

theorem receive_turn_other_frames_counterexample:
  "fst (receive_turn scripted_sub False
       (demo_subscription,
        \<lparr>dials = [], replies = [Inl (ErrorReplyError ''-ERR x'')], actions = []\<rparr>))
     = Raised (ErrorReplyError ''-ERR x'')
   \<and> receive_turn scripted_sub False
       (demo_subscription,
        \<lparr>dials = [], replies = [Inr (IntegerReply ''1''), Inr (SimpleStringReply ''PONG''),
                                Inr (ArrayReply (Some [RawString ''subscribe'', RawString ''news'', RawInteger (Some 1)]))],
         actions = []\<rparr>)
     = (Dropped, demo_subscription,
        \<lparr>dials = [], replies = [],
         actions = [Sent ''PING'' [], Sent ''SUBSCRIBE'' [VString ''news'']]\<rparr>)"
  by (simp add: sub_eval)

section \<open>Wire codec: the buffered reader\<close>

lemma findCRLF_none: "CR \<notin> set (butlast xs) \<Longrightarrow> findCRLF xs = None"
  by (induction xs rule: findCRLF.induct) (auto split: if_splits)

lemma findCRLF_at: "CR \<notin> set l \<Longrightarrow> findCRLF (l @ CR # LF # r) = Some (length l)"
proof (induction l)
  case Nil
  show ?case by simp
next
  case (Cons a l)
  then have ih: "findCRLF (l @ CR # LF # r) = Some (length l)" and a: "a \<noteq> CR" by auto
  obtain b t where bt: "l @ CR # LF # r = b # t" by (cases "l @ CR # LF # r") auto
  have "findCRLF ((a # l) @ CR # LF # r) = findCRLF (a # b # t)" using bt by simp
  also have "\<dots> = map_option Suc (findCRLF (b # t))" using a by simp
  also have "\<dots> = Some (Suc (length l))" using ih bt by simp
  finally show ?case by simp
qed

lemma prefix_cases:
  assumes "data @ tail = l @ CRLF @ rest"
  shows "(\<exists>r'. data = l @ CRLF @ r' \<and> rest = r' @ tail) \<or> (length data < length l + 2 \<and> butlast data = take (length data - 1) l)"
proof (cases "length data < length l + 2")
  case False
  then have len: "length (l @ CRLF) \<le> length data" by (simp add: CRLF_def)
  from assms have "take (length (l @ CRLF)) (data @ tail) = l @ CRLF" by simp
  with len have tk: "take (length (l @ CRLF)) data = l @ CRLF" by simp
  define r' where "r' = drop (length (l @ CRLF)) data"
  have d: "data = (l @ CRLF) @ r'" using tk r'_def by (metis append_take_drop_id)
  with assms have "rest = r' @ tail" by simp
  with d show ?thesis by auto
next
  case True
  from assms have "take (length data - 1) (data @ tail) = take (length data - 1) (l @ CRLF @ rest)" by simp
  moreover have "take (length data - 1) (data @ tail) = butlast data" by (simp add: butlast_conv_take)
  moreover have "take (length data - 1) (l @ CRLF @ rest) = take (length data - 1) l" using True by simp
  ultimately show ?thesis using True by simp
qed

lemma readLine_loop_line:
  assumes "data @ concat chunks = l @ CRLF @ rest" and "CR \<notin> set l"
  shows "\<exists>sb. readLine_loop data chunks = (Some l, sb) \<and> pending sb = rest"
  using assms
proof (induction chunks arbitrary: data)
  case Nil
  from prefix_cases[OF Nil.prems(1)] show ?case
  proof
    assume "\<exists>r'. data = l @ CRLF @ r' \<and> rest = r' @ concat []"
    then obtain r' where d: "data = l @ CR # LF # r'" and r: "rest = r'" by (auto simp: CRLF_def)
    from findCRLF_at[OF Nil.prems(2), of r'] d r show ?thesis
      by (simp add: pending_def)
  next
    assume "length data < length l + 2 \<and> butlast data = take (length data - 1) l"
    then have "length data < length l + 2" by simp
    moreover have "length (data @ concat []) = length (l @ CRLF @ rest)"
      using Nil.prems(1) by (rule arg_cong)
    then have "length data = length l + 2 + length rest" by (simp add: CRLF_def)
    ultimately show ?thesis by simp
  qed
next
  case (Cons v chunks)
  from prefix_cases[OF Cons.prems(1)] show ?case
  proof
    assume "\<exists>r'. data = l @ CRLF @ r' \<and> rest = r' @ concat (v # chunks)"
    then obtain r' where d: "data = l @ CR # LF # r'" and r: "rest = r' @ concat (v # chunks)"
      by (auto simp: CRLF_def)
    from findCRLF_at[OF Cons.prems(2), of r'] d r show ?thesis
      by (simp add: pending_def)
  next
    assume a: "length data < length l + 2 \<and> butlast data = take (length data - 1) l"
    then have "butlast data = take (length data - 1) l" by simp
    then have "set (butlast data) \<subseteq> set l" using set_take_subset[of "length data - 1" l] by simp
    with Cons.prems(2) have "findCRLF data = None" by (intro findCRLF_none) auto
    moreover have "(data @ v) @ concat chunks = l @ CRLF @ rest" using Cons.prems(1) by simp
    from Cons.IH[OF this Cons.prems(2)]
    obtain sb where "readLine_loop (data @ v) chunks = (Some l, sb) \<and> pending sb = rest" by blast
    ultimately show ?thesis by simp
  qed
qed

lemma readLine_line:
  assumes "pending sb = l @ CRLF @ rest" and "CR \<notin> set l"
  shows "\<exists>sb'. readLine sb = (Some l, sb') \<and> pending sb' = rest"
  using readLine_loop_line[of "buffer sb" "reader sb" l rest] assms
  by (simp add: readLine_def pending_def)

lemma ensure_loop_pending:
  "pending (ensureBufferSize_loop n data chunks) = data @ concat chunks
   \<and> (n \<le> length (buffer (ensureBufferSize_loop n data chunks))
      \<or> reader (ensureBufferSize_loop n data chunks) = [])"
  by (induction chunks arbitrary: data) (auto simp: pending_def)

lemma readBytes_exact:
  assumes "pending sb = xs @ rest" and "length xs = n"
  shows "\<exists>sb'. readBytes n sb = (Inr xs, sb') \<and> pending sb' = rest"
proof -
  let ?sb1 = "ensureBufferSize n sb"
  from ensure_loop_pending[of n "buffer sb" "reader sb"]
  have p: "pending ?sb1 = xs @ rest"
    and c: "n \<le> length (buffer ?sb1) \<or> reader ?sb1 = []"
    using assms by (simp_all add: ensureBufferSize_def pending_def)
  from c p assms(2) have len: "n \<le> length (buffer ?sb1)"
    by (auto simp: pending_def)
  from p have "take n (buffer ?sb1 @ concat (reader ?sb1)) = xs"
    using assms(2) by (simp add: pending_def)
  with len have tk: "take n (buffer ?sb1) = xs" by simp
  from p have "drop n (buffer ?sb1 @ concat (reader ?sb1)) = rest"
    using assms(2) by (simp add: pending_def)
  with len have dr: "drop n (buffer ?sb1) @ concat (reader ?sb1) = rest" by simp
  show ?thesis using len tk dr by (simp add: readBytes_def Let_def pending_def)
qed

lemma readBytes_short:
  assumes "length (pending sb) < n"
  shows "fst (readBytes n sb) = Inl InvalidStateError"
proof -
  let ?sb1 = "ensureBufferSize n sb"
  from ensure_loop_pending[of n "buffer sb" "reader sb"]
  have "pending ?sb1 = pending sb" by (simp add: ensureBufferSize_def pending_def)
  then have "length (buffer ?sb1) \<le> length (pending sb)"
    by (metis length_append le_add1 pending_def)
  with assms show ?thesis by (simp add: readBytes_def Let_def)
qed

section \<open>Wire codec: decimal numbers\<close>

lemma less_10_cases:
  "(d::nat) < 10 \<Longrightarrow> d = 0 \<or> d = 1 \<or> d = 2 \<or> d = 3 \<or> d = 4 \<or> d = 5 \<or> d = 6 \<or> d = 7 \<or> d = 8 \<or> d = 9"
  by arith

lemma digit_char_props:
  assumes "d < 10"
  shows "digit_val (digit_char d) = d" and "\<not> is_ws (digit_char d)"
    and "digit_char d \<noteq> CHR ''-''" and "digit_char d \<noteq> CHR ''+''"
    and "digit_char d \<noteq> CHR ''x''" and "digit_char d \<noteq> CHR ''X''"
    and "digit_char d \<noteq> CR"
  using less_10_cases[OF assms]
  by (auto simp: digit_char_def digit_val_def is_ws_def CR_def Let_def)

lemma show_nat_small: "n < 10 \<Longrightarrow> show_nat n = [digit_char n]"
  by (subst show_nat.simps) simp

lemma show_nat_big: "\<not> n < 10 \<Longrightarrow> show_nat n = show_nat (n div 10) @ [digit_char (n mod 10)]"
  by (subst show_nat.simps) simp

lemma show_nat_digits: "c \<in> set (show_nat n) \<Longrightarrow> \<exists>d<10. c = digit_char d"
proof (induction n arbitrary: c rule: show_nat.induct)
  case (1 n)
  show ?case
  proof (cases "n < 10")
    case True
    with "1.prems" have "c = digit_char n" by (simp add: show_nat_small)
    with True show ?thesis by blast
  next
    case False
    from "1.prems" have "c \<in> set (show_nat (n div 10)) \<or> c = digit_char (n mod 10)"
      using False by (auto simp: show_nat_big)
    then show ?thesis
    proof
      assume "c \<in> set (show_nat (n div 10))"
      from "1.IH"[OF False this] show ?thesis .
    next
      assume c: "c = digit_char (n mod 10)"
      have "n mod 10 < 10" by simp
      with c show ?thesis by blast
    qed
  qed
qed

lemma digits_value_snoc: "digits_value r (ds @ [c]) = digits_value r ds * r + digit_val c"
  by (simp add: digits_value_def)

lemma show_nat_value: "digits_value 10 (show_nat n) = n"
proof (induction n rule: show_nat.induct)
  case (1 n)
  show ?case
  proof (cases "n < 10")
    case True
    then show ?thesis
      by (simp add: show_nat_small digits_value_def digit_char_props)
  next
    case False
    have "digits_value 10 (show_nat n)
        = digits_value 10 (show_nat (n div 10)) * 10 + digit_val (digit_char (n mod 10))"
      using False by (simp add: show_nat_big digits_value_snoc)
    also have "\<dots> = (n div 10) * 10 + n mod 10"
      using "1.IH"[OF False] by (simp add: digit_char_props)
    finally show ?thesis by simp
  qed
qed

lemma show_nat_nonempty: "show_nat n \<noteq> []"
  by (cases "n < 10") (simp_all add: show_nat_small show_nat_big)

lemma takeWhile_all: "(\<And>c. c \<in> set xs \<Longrightarrow> P c) \<Longrightarrow> takeWhile P xs = xs"
  by (induction xs) auto

lemma parseInt_digits:
  assumes "ds \<noteq> []" and "\<And>c. c \<in> set ds \<Longrightarrow> \<exists>d<10. c = digit_char d"
  shows "parseInt ds = Some (int (digits_value 10 ds))"
    and "parseInt (CHR ''-'' # ds) = Some (- int (digits_value 10 ds))"
proof -
  from assms(1) obtain c cs where ds: "ds = c # cs" by (cases ds) auto
  from assms(2) ds obtain d where d: "d < 10" "c = digit_char d" by auto
  have c: "\<not> is_ws c" "c \<noteq> CHR ''-''" "c \<noteq> CHR ''+''"
    using d digit_char_props by auto
  have nohex: "(case ds of a # b # _ \<Rightarrow> a = CHR ''0'' \<and> (b = CHR ''x'' \<or> b = CHR ''X'') | _ \<Rightarrow> False) = False"
  proof (cases cs)
    case Nil
    with ds show ?thesis by simp
  next
    case (Cons b t)
    with assms(2) ds obtain e where "e < 10" "b = digit_char e" by auto
    then have "b \<noteq> CHR ''x''" "b \<noteq> CHR ''X''" using digit_char_props by auto
    with ds Cons show ?thesis by simp
  qed
  have alldig: "takeWhile (is_digit 10) ds = ds"
  proof (rule takeWhile_all)
    fix x assume "x \<in> set ds"
    with assms(2) obtain e where "e < 10" "x = digit_char e" by auto
    then show "is_digit 10 x" by (simp add: is_digit_def digit_char_props)
  qed
  have minus_ws: "\<not> is_ws (CHR ''-'')" by (simp add: is_ws_def)
  show "parseInt ds = Some (int (digits_value 10 ds))"
  proof -
    have 1: "dropWhile is_ws ds = ds" using c ds by simp
    have 2: "(case ds of c # _ \<Rightarrow> c = CHR ''-'' | [] \<Rightarrow> False) = False" using c ds by simp
    have 3: "(case ds of c # r \<Rightarrow> if c = CHR ''-'' \<or> c = CHR ''+'' then r else ds | [] \<Rightarrow> ds) = ds"
      using c ds by simp
    show ?thesis
      using assms(1) by (simp add: parseInt_def Let_def 1 2 3 nohex alldig)
  qed
  show "parseInt (CHR ''-'' # ds) = Some (- int (digits_value 10 ds))"
    using minus_ws assms(1) by (simp add: parseInt_def Let_def nohex alldig)
qed

lemma parseInt_show_int: "parseInt (show_int n) = Some n"
proof (cases "n < 0")
  case True
  then show ?thesis
    using parseInt_digits(2)[of "show_nat (nat (- n))"] show_nat_digits show_nat_nonempty
    by (simp add: show_int_def show_nat_value)
next
  case False
  then show ?thesis
    using parseInt_digits(1)[of "show_nat (nat n)"] show_nat_digits show_nat_nonempty
    by (simp add: show_int_def show_nat_value)
qed

lemma show_nat_no_CR: "CR \<notin> set (show_nat k)"
proof
  assume "CR \<in> set (show_nat k)"
  from show_nat_digits[OF this] obtain d where "d < 10" "CR = digit_char d" by blast
  with digit_char_props(7)[of d] show False by simp
qed

lemma show_int_no_CR: "CR \<notin> set (show_int n)"
  using show_nat_no_CR by (simp add: show_int_def CR_def)

section \<open>Wire codec: bulk frames\<close>

lemma bulk_header:
  assumes "pending sb = ''$'' @ show_int n @ CRLF @ rest"
  shows "\<exists>sb1. readLine sb = (Some (''$'' @ show_int n), sb1) \<and> pending sb1 = rest"
proof -
  have "pending sb = (''$'' @ show_int n) @ CRLF @ rest" using assms by simp
  moreover have "CR \<notin> set (''$'' @ show_int n)" using show_int_no_CR by (simp add: CR_def)
  ultimately show ?thesis by (rule readLine_line)
qed

lemma bulk_null:
  assumes "pending sb = ''$'' @ show_int n @ CRLF @ rest" and "n < 0"
  shows "\<exists>sb'. readBulkReplyBody sb = (Inr None, sb') \<and> pending sb' = rest"
proof -
  from bulk_header[OF assms(1)] obtain sb1
    where "readLine sb = (Some (''$'' @ show_int n), sb1)" "pending sb1 = rest" by blast
  with assms(2) show ?thesis
    by (simp add: readBulkReplyBody_def parseSize_def parseInt_show_int Let_def)
qed

lemma bulk_payload:
  assumes "pending sb = ''$'' @ show_int n @ CRLF @ payload @ CRLF @ after"
    and "int (length payload) = n"
  shows "\<exists>sb'. readBulkReplyBody sb = (Inr (Some payload), sb') \<and> pending sb' = after"
proof -
  from bulk_header[OF assms(1)] obtain sb1
    where l: "readLine sb = (Some (''$'' @ show_int n), sb1)"
      and p1: "pending sb1 = payload @ CRLF @ after" by blast
  from assms(2) have n: "nat n = length payload" "\<not> n < 0" by auto
  from readBytes_exact[OF p1, of "nat n"] n obtain sb2
    where b: "readBytes (nat n) sb1 = (Inr payload, sb2)" and p2: "pending sb2 = CRLF @ after"
    by auto
  from readBytes_exact[OF p2, of 2] obtain sb3
    where c: "readBytes 2 sb2 = (Inr CRLF, sb3)" and p3: "pending sb3 = after"
    by (auto simp: CRLF_def)
  show ?thesis using l n b c p3
    by (simp add: readBulkReplyBody_def parseSize_def parseInt_show_int Let_def CRLF_def)
qed

lemma bulk_reject:
  assumes "pending sb = ''$'' @ show_int n @ CRLF @ rest" and "0 \<le> n"
    and "\<not> (\<exists>payload after. rest = payload @ CRLF @ after \<and> int (length payload) = n)"
  shows "fst (readBulkReplyBody sb) = Inl InvalidStateError"
proof -
  from bulk_header[OF assms(1)] obtain sb1
    where l: "readLine sb = (Some (''$'' @ show_int n), sb1)"
      and p1: "pending sb1 = rest" by blast
  have n: "\<not> n < 0" using assms(2) by simp
  show ?thesis
  proof (cases "length rest < nat n")
    case True
    with p1 have "fst (readBytes (nat n) sb1) = Inl InvalidStateError"
      by (simp add: readBytes_short)
    then show ?thesis using l n
      by (auto simp: readBulkReplyBody_def parseSize_def parseInt_show_int Let_def
               split: prod.splits sum.splits)
  next
    case False
    then have p1': "pending sb1 = take (nat n) rest @ drop (nat n) rest"
      and len: "length (take (nat n) rest) = nat n" using p1 by simp_all
    from readBytes_exact[OF p1' len] obtain sb2
      where b: "readBytes (nat n) sb1 = (Inr (take (nat n) rest), sb2)"
        and p2: "pending sb2 = drop (nat n) rest" by blast
    show ?thesis
    proof (cases "length (drop (nat n) rest) < 2")
      case True
      with p2 have "fst (readBytes 2 sb2) = Inl InvalidStateError"
        by (simp add: readBytes_short)
      then show ?thesis using l n b
        by (auto simp: readBulkReplyBody_def parseSize_def parseInt_show_int Let_def
                 split: prod.splits sum.splits)
    next
      case False
      have p2': "pending sb2 = take 2 (drop (nat n) rest) @ drop 2 (drop (nat n) rest)"
        unfolding p2 by (rule append_take_drop_id[symmetric])
      have len2: "length (take 2 (drop (nat n) rest)) = 2" using False by simp
      from readBytes_exact[OF p2' len2] obtain sb3
        where c: "readBytes 2 sb2 = (Inr (take 2 (drop (nat n) rest)), sb3)" by blast
      have two: "\<And>zs :: bytes. length zs = 2 \<Longrightarrow> \<exists>x y. zs = [x, y]"
        by (auto simp: numeral_2_eq_2 length_Suc_conv)
      from two[OF len2] obtain x y where xy: "take 2 (drop (nat n) rest) = [x, y]" by blast
      have "\<not> (x = CR \<and> y = LF)"
      proof
        assume "x = CR \<and> y = LF"
        with xy have "take 2 (drop (nat n) rest) = CRLF" by (simp add: CRLF_def)
        moreover have "rest = take (nat n) rest
            @ (take 2 (drop (nat n) rest) @ drop 2 (drop (nat n) rest))"
          by (simp only: append_take_drop_id)
        ultimately have "rest = take (nat n) rest @ CRLF @ drop 2 (drop (nat n) rest)"
          by simp
        moreover have "int (length (take (nat n) rest)) = n" using len assms(2) by simp
        ultimately show False using assms(3) by blast
      qed
      then show ?thesis using l n b c xy
        by (auto simp: readBulkReplyBody_def parseSize_def parseInt_show_int Let_def)
    qed
  qed
qed

text \<open>
  Claim C5. On a reader whose pending bytes start with a bulk header \<^verbatim>\<open>$N\<close> and CRLF,
  however the bytes are cut into chunks: for \<open>N = -1\<close> the body is \<^verbatim>\<open>null\<close> and nothing
  after the header is consumed; when \<open>N\<close> payload bytes and a CRLF follow, the body is
  exactly these \<open>N\<close> bytes (for \<open>N = 0\<close> the empty byte string), it differs from the null
  bulk, and the bytes after that CRLF stay pending; for \<open>N \<ge> 0\<close> and anything else, the
  frame is rejected with \<^verbatim>\<open>InvalidStateError\<close>.
\<close>

theorem bulk_frame_decoding:
  assumes "pending sb = ''$'' @ show_int n @ CRLF @ rest"
  shows "(n = - 1 \<longrightarrow> (\<exists>sb'. readBulkReplyBody sb = (Inr None, sb') \<and> pending sb' = rest))
       \<and> (\<forall>payload after. rest = payload @ CRLF @ after \<and> int (length payload) = n \<longrightarrow>
            (\<exists>sb'. readBulkReplyBody sb = (Inr (Some payload), sb') \<and> pending sb' = after)
            \<and> reply_value (BulkReply (Some payload)) \<noteq> reply_value (BulkReply None))
       \<and> (0 \<le> n \<and> \<not> (\<exists>payload after. rest = payload @ CRLF @ after \<and> int (length payload) = n) \<longrightarrow>
            fst (readBulkReplyBody sb) = Inl InvalidStateError)"
proof (intro conjI allI impI)
  assume "n = - 1"
  then show "\<exists>sb'. readBulkReplyBody sb = (Inr None, sb') \<and> pending sb' = rest"
    using bulk_null[OF assms] by simp
next
  fix payload after
  assume a: "rest = payload @ CRLF @ after \<and> int (length payload) = n"
  with assms have "pending sb = ''$'' @ show_int n @ CRLF @ payload @ CRLF @ after" by simp
  from bulk_payload[OF this] a
  show "\<exists>sb'. readBulkReplyBody sb = (Inr (Some payload), sb') \<and> pending sb' = after" by simp
  show "reply_value (BulkReply (Some payload)) \<noteq> reply_value (BulkReply None)" by simp
next
  assume "0 \<le> n \<and> \<not> (\<exists>payload after. rest = payload @ CRLF @ after \<and> int (length payload) = n)"
  then show "fst (readBulkReplyBody sb) = Inl InvalidStateError"
    using bulk_reject[OF assms] by blast
qed

lemmas codec_eval =
  readReply_def readReply_buffered_def peek_def readBytes_def ensureBufferSize_def readLine_def
  readBulkReplyBody_def readIntegerReplyBody_def readSimpleStringReplyBody_def
  tryParseErrorReply_def parseSize_def parseInt_def is_ws_def is_digit_def digit_val_def
  digits_value_def CRLF_def CR_def LF_def pending_def Let_def

theorem bulk_frame_decoding_witness:
  "readBulkReplyBody \<lparr>buffer = [], reader = [''$-1'' @ CRLF @ ''+OK'' @ CRLF]\<rparr>
     = (Inr None, \<lparr>buffer = ''+OK'' @ CRLF, reader = []\<rparr>)
   \<and> readBulkReplyBody \<lparr>buffer = [], reader = [''$0'' @ CRLF, CRLF @ '':1'' @ CRLF]\<rparr>
     = (Inr (Some []), \<lparr>buffer = '':1'' @ CRLF, reader = []\<rparr>)
   \<and> readBulkReplyBody \<lparr>buffer = [], reader = [''$3'' @ CRLF @ ''fo'', ''o'' @ CRLF]\<rparr>
     = (Inr (Some ''foo''), \<lparr>buffer = [], reader = []\<rparr>)
   \<and> fst (readBulkReplyBody \<lparr>buffer = [], reader = [''$3'' @ CRLF @ ''foobar'' @ CRLF]\<rparr>)
     = Inl InvalidStateError"
proof -
  have s1: "show_int (- 1) = ''-1''" and s0: "show_int 0 = ''0''" and s3: "show_int 3 = ''3''"
    by (simp_all add: show_int_def show_nat.simps digit_char_def)
  have p1: "pending \<lparr>buffer = [], reader = [''$-1'' @ CRLF @ ''+OK'' @ CRLF]\<rparr>
      = ''$'' @ show_int (- 1) @ CRLF @ (''+OK'' @ CRLF)"
    by (simp add: pending_def s1)
  have p2: "pending \<lparr>buffer = [], reader = [''$0'' @ CRLF, CRLF @ '':1'' @ CRLF]\<rparr>
      = ''$'' @ show_int 0 @ CRLF @ ([] @ CRLF @ ('':1'' @ CRLF))"
    by (simp add: pending_def s0)
  have p3: "pending \<lparr>buffer = [], reader = [''$3'' @ CRLF @ ''fo'', ''o'' @ CRLF]\<rparr>
      = ''$'' @ show_int 3 @ CRLF @ (''foo'' @ CRLF @ [])"
    by (simp add: pending_def s3)
  have p4: "pending \<lparr>buffer = [], reader = [''$3'' @ CRLF @ ''foobar'' @ CRLF]\<rparr>
      = ''$'' @ show_int 3 @ CRLF @ (''foobar'' @ CRLF)"
    by (simp add: pending_def s3)
  have no: "\<not> (\<exists>payload after. ''foobar'' @ CRLF = payload @ CRLF @ after \<and> int (length payload) = 3)"
  proof
    assume "\<exists>payload after. ''foobar'' @ CRLF = payload @ CRLF @ after \<and> int (length payload) = 3"
    then obtain payload after where e: "''foobar'' @ CRLF = payload @ CRLF @ after"
      and l: "length payload = 3" by auto
    from e have "take 5 (''foobar'' @ CRLF) = take 5 (payload @ CRLF @ after)" by simp
    with l have "''fooba'' = payload @ CRLF" by (simp add: CRLF_def)
    then have "drop 3 ''fooba'' = drop 3 (payload @ CRLF)" by simp
    with l show False by (simp add: CRLF_def CR_def)
  qed
  have e1: "readBulkReplyBody \<lparr>buffer = [], reader = [''$-1'' @ CRLF @ ''+OK'' @ CRLF]\<rparr>
     = (Inr None, \<lparr>buffer = ''+OK'' @ CRLF, reader = []\<rparr>)"
    by (simp add: codec_eval)
  have e2: "readBulkReplyBody \<lparr>buffer = [], reader = [''$0'' @ CRLF, CRLF @ '':1'' @ CRLF]\<rparr>
     = (Inr (Some []), \<lparr>buffer = '':1'' @ CRLF, reader = []\<rparr>)"
    by (simp add: codec_eval)
  have e3: "readBulkReplyBody \<lparr>buffer = [], reader = [''$3'' @ CRLF @ ''fo'', ''o'' @ CRLF]\<rparr>
     = (Inr (Some ''foo''), \<lparr>buffer = [], reader = []\<rparr>)"
    by (simp add: codec_eval)
  from bulk_frame_decoding[OF p4] no
  have r4: "fst (readBulkReplyBody \<lparr>buffer = [], reader = [''$3'' @ CRLF @ ''foobar'' @ CRLF]\<rparr>)
     = Inl InvalidStateError"
    by simp
  from e1 e2 e3 r4 show ?thesis by (intro conjI)
qed

section \<open>Wire codec: bytes read beyond a frame\<close>

text \<open>
  Claim C3 (bytes pulled from the stream beyond the frame being decoded remain available
  to the next decode call) does not hold of \<^verbatim>\<open>readReply\<close>: when one chunk carries the
  frames \<^verbatim>\<open>:1\<close> and \<^verbatim>\<open>:2\<close>, the first call returns the integer reply 1 and leaves the
  second frame in the buffer of its own \<^verbatim>\<open>StreamBuffer\<close>, which is dropped with the call;
  the stream reader is exhausted, and the next call finds the end of the stream.
\<close>

theorem readReply_loses_buffered_frame:
  "readReply_buffered 1 \<lparr>buffer = [], reader = ['':1'' @ CRLF @ '':2'' @ CRLF]\<rparr>
     = (Some (Inr (IntegerReply ''1'')), \<lparr>buffer = '':2'' @ CRLF, reader = []\<rparr>)
   \<and> readReply 1 ['':1'' @ CRLF @ '':2'' @ CRLF] = (Some (Inr (IntegerReply ''1'')), [])
   \<and> readReply 1 (snd (readReply 1 ['':1'' @ CRLF @ '':2'' @ CRLF])) = (Some (Inl EOFError), [])"
  by (simp add: codec_eval)

text \<open>When each frame arrives in a chunk of its own, both are decoded.\<close>

lemma readReply_separate_chunks:
  "readReply 1 ['':1'' @ CRLF, '':2'' @ CRLF] = (Some (Inr (IntegerReply ''1'')), ['':2'' @ CRLF])
   \<and> readReply 1 (snd (readReply 1 ['':1'' @ CRLF, '':2'' @ CRLF]))
       = (Some (Inr (IntegerReply ''2'')), [])"
  by (simp add: codec_eval)

section \<open>Wire codec: encoding a request and decoding it again\<close>

text \<open>
  Claim C4 (decoding the encoded request gives back the command and the present
  arguments) does not hold for a command with a character outside ASCII: the length
  prefix of the command is \<^verbatim>\<open>command.length\<close>, the number of UTF-16 code units, while the
  bytes written are its UTF-8 encoding. For the command \<^verbatim>\<open>"\u00e9"\<close> the prefix is 1 and
  two bytes follow, and the decoder rejects the frame.
\<close>

theorem writeCommand_non_ascii_command:
  "writeCommand [CHR 0xC3, CHR 0xA9] [] = ''*1'' @ CRLF @ ''$1'' @ CRLF @ [CHR 0xC3, CHR 0xA9] @ CRLF
   \<and> readReply 2 [writeCommand [CHR 0xC3, CHR 0xA9] []] = (Some (Inl InvalidStateError), [])"
  by code_simp

text \<open>
  With a command of ASCII characters (\<^verbatim>\<open>command.length\<close> is then its number of bytes)
  the round trip holds, for every chunking of the encoded bytes: the decoded array is
  the command followed by the present arguments, text and bytes as they are and numbers
  in decimal, and what follows the request stays pending. The elements stand for decoded
  text, so this describes the code for arguments that are well-formed UTF-8.
\<close>

lemma peek_first:
  assumes "pending sb = c # t"
  shows "\<exists>sb1. peek 1 sb = (Some [c], sb1) \<and> pending sb1 = c # t"
proof -
  let ?sb1 = "ensureBufferSize 1 sb"
  from ensure_loop_pending[of 1 "buffer sb" "reader sb"]
  have p: "pending ?sb1 = c # t"
    and d: "1 \<le> length (buffer ?sb1) \<or> reader ?sb1 = []"
    using assms by (simp_all add: ensureBufferSize_def pending_def)
  from d p have ne: "buffer ?sb1 \<noteq> []" by (auto simp: pending_def)
  then obtain x xs where b: "buffer ?sb1 = x # xs" by (cases "buffer ?sb1") auto
  with p have "x = c" by (simp add: pending_def)
  with b p show ?thesis by (simp add: peek_def Let_def)
qed

lemma show_int_nat: "show_int (int k) = show_nat k"
  by (simp add: show_int_def)

lemma read_bulks:
  assumes "pending sb = concat (map write_bulk bs) @ rest"
  shows "\<exists>sb'. readArrayItems d (length bs) acc sb = (Some (Inr (acc @ map RawString bs)), sb')
               \<and> pending sb' = rest"
  using assms
proof (induction bs arbitrary: sb acc)
  case Nil
  then show ?case by simp
next
  case (Cons b bs)
  let ?after = "concat (map write_bulk bs) @ rest"
  have wb: "write_bulk b = CHR ''$'' # (show_nat (length b) @ CRLF @ b @ CRLF)"
    by (simp add: write_bulk_def)
  have "pending sb = write_bulk b @ ?after" using Cons.prems by simp
  then have p: "pending sb = CHR ''$'' # (show_nat (length b) @ CRLF @ b @ CRLF @ ?after)"
    unfolding wb by simp
  from peek_first[OF p] obtain sb1 where pk: "peek 1 sb = (Some ''$'', sb1)"
    and p1': "pending sb1 = CHR ''$'' # (show_nat (length b) @ CRLF @ b @ CRLF @ ?after)"
    by blast
  have p1: "pending sb1 = ''$'' @ show_int (int (length b)) @ CRLF @ b @ CRLF @ ?after"
    unfolding p1' show_int_nat by simp
  from bulk_payload[OF p1] obtain sb2
    where rb: "readBulkReplyBody sb1 = (Inr (Some b), sb2)" and p2: "pending sb2 = ?after"
    by auto
  from Cons.IH[OF p2, of "acc @ [RawString b]"] obtain sb'
    where "readArrayItems d (length bs) (acc @ [RawString b]) sb2
             = (Some (Inr ((acc @ [RawString b]) @ map RawString bs)), sb')"
      and "pending sb' = rest" by blast
  with pk rb show ?case by simp
qed

lemma writeCommand_bulks:
  assumes "js_length cmd = length cmd"
  shows "writeCommand cmd as
         = ''*'' @ show_nat (length (cmd # map arg_bytes (filter present as))) @ CRLF
           @ concat (map write_bulk (cmd # map arg_bytes (filter present as)))"
  using assms by (simp add: writeCommand_def write_bulk_def Let_def comp_def)

lemma roundtrip_ascii_command:
  assumes "js_length cmd = length cmd"
    and "length (filter present as) < 4294967295"
    and "pending sb = writeCommand cmd as @ rest"
  shows "\<exists>sb'. readReply_buffered (Suc (Suc d)) sb
               = (Some (Inr (ArrayReply (Some (RawString cmd
                    # map (\<lambda>a. RawString (arg_bytes a)) (filter present as))))), sb')
             \<and> pending sb' = rest"
proof -
  define bs where "bs = cmd # map arg_bytes (filter present as)"
  define n where "n = length bs"
  have p: "pending sb = CHR ''*'' # (show_nat n @ CRLF @ concat (map write_bulk bs) @ rest)"
    using assms(3) writeCommand_bulks[OF assms(1), of as] by (simp add: bs_def n_def)
  from peek_first[OF p] obtain sb1 where pk: "peek 1 sb = (Some ''*'', sb1)"
    and p1': "pending sb1 = CHR ''*'' # (show_nat n @ CRLF @ concat (map write_bulk bs) @ rest)"
    by blast
  have p1: "pending sb1 = (''*'' @ show_int (int n)) @ CRLF @ concat (map write_bulk bs) @ rest"
    unfolding p1' show_int_nat by simp
  have "CR \<notin> set (''*'' @ show_int (int n))" using show_int_no_CR by (simp add: CR_def)
  from readLine_line[OF p1 this] obtain sb2
    where rl: "readLine sb1 = (Some (''*'' @ show_int (int n)), sb2)"
      and p2: "pending sb2 = concat (map write_bulk bs) @ rest" by blast
  from read_bulks[OF p2, of "Suc d" "[]"] obtain sb'
    where items: "readArrayItems (Suc d) n [] sb2 = (Some (Inr (map RawString bs)), sb')"
      and p': "pending sb' = rest" by (auto simp: n_def)
  have size: "parseSize (''*'' @ show_int (int n)) = Some (int n)"
    by (simp add: parseSize_def parseInt_show_int)
  have range: "\<not> (int n < 0 \<or> int n > 4294967295)" "int n \<noteq> - 1"
    using assms(2) by (simp_all add: n_def bs_def)
  have "readArrayReplyBody (Suc (Suc d)) sb1 = (Some (Inr (Some (map RawString bs))), sb')"
    using rl size range items by simp
  with pk p' show ?thesis by (simp add: readReply_buffered_def bs_def comp_def)
qed

text \<open>
  A request with an ASCII command, where absent arguments are dropped before the count
  is written, and text, number and bytes come back as sent.
\<close>

lemma writeCommand_example:
  "writeCommand ''SET'' [VString ''k'', VNull, VNumber (- 12), VUndefined, VBytes [CHR 0xC3, CHR 0xA9, CR, LF]]
     = ''*4'' @ CRLF @ ''$3'' @ CRLF @ ''SET'' @ CRLF @ ''$1'' @ CRLF @ ''k'' @ CRLF
       @ ''$3'' @ CRLF @ ''-12'' @ CRLF @ ''$4'' @ CRLF @ [CHR 0xC3, CHR 0xA9, CR, LF] @ CRLF
   \<and> readReply 2 [writeCommand ''SET'' [VString ''k'', VNull, VNumber (- 12), VUndefined,
                                        VBytes [CHR 0xC3, CHR 0xA9, CR, LF]]]
     = (Some (Inr (ArrayReply (Some [RawString ''SET'', RawString ''k'', RawString ''-12'',
                                     RawString [CHR 0xC3, CHR 0xA9, CR, LF]]))), [])"
  by code_simp

text \<open>
  One command on a socket: the request goes out in a single write, and when the reply
  arrives together with the next pushed frame, that frame is lost to the next read.
\<close>

lemma sendCommand_example:
  "sendCommand 1 \<lparr>written = [], readable = [''+OK'' @ CRLF @ '':7'' @ CRLF]\<rparr> ''SET''
       [VString ''k'', VString ''v'']
     = (Some (Inr (SimpleStringReply ''OK'')),
        \<lparr>written = [''*3'' @ CRLF @ ''$3'' @ CRLF @ ''SET'' @ CRLF @ ''$1'' @ CRLF @ ''k'' @ CRLF
                     @ ''$1'' @ CRLF @ ''v'' @ CRLF],
         readable = []\<rparr>)"
  by code_simp

end
